theory Spec2Isabelle
  imports Main "HOL-Library.Char_ord" "HOL-Library.List_Lexorder" "HOL-Library.Multiset"
begin

section \<open>Documents and their serialized form\<close>

text \<open>
  The plugin (\<^verbatim>\<open>internal/plugin/replace_pattern_action.go\<close>) works on
  \<^verbatim>\<open>unstructured.Unstructured\<close> items: a Go \<^verbatim>\<open>map[string]interface{}\<close> holding a
  JSON document. A document is a value of \<open>json\<close>. A Go map is an association list with
  strictly increasing keys (bytewise order, the order in which \<^verbatim>\<open>encoding/json\<close> writes
  the keys of a map). \<open>JNull\<close> at the top stands for the nil map. \<open>JUnsupported\<close> stands
  for a Go value that \<^verbatim>\<open>encoding/json\<close> refuses to encode (a NaN, a channel, a function).

  The fragment of JSON that is modelled: numbers are integers of magnitude below \<open>2^53\<close>
  (where \<^verbatim>\<open>float64\<close>, the type \<^verbatim>\<open>encoding/json\<close> decodes a number to, is exact;
  a literal with a fraction, an exponent or a larger magnitude is refused by the parser of the
  model), and text is taken to be well-formed UTF-8 without U+2028 and U+2029 (bytes above
  \<open>0x7F\<close> are copied as they are in both directions).
\<close>

datatype json =
    JNull
  | JBool bool
  | JNum int
  | JString string
  | JArray "json list"
  | JObject "(string \<times> json) list"
  | JUnsupported

datatype error =
    ListConfigMapsError
  | NoConfigMapFound
  | MarshalError
  | SyntaxError
  | UnmarshalTypeError
  | MissingKindError
  | PodLabelsNil
  | MissingRestoreLabels
  | ListPodVolumeRestoresError
  | UpdatePodVolumeRestoreError

subsection \<open>Go maps with string keys\<close>

text \<open>\<^verbatim>\<open>m[k] = v\<close>: the entry is overwritten or inserted at its place in key order.\<close>

fun mapStore :: "string \<Rightarrow> 'v \<Rightarrow> (string \<times> 'v) list \<Rightarrow> (string \<times> 'v) list" where
  "mapStore k v [] = [(k, v)]"
| "mapStore k v ((k', v') # kvs) =
     (if k = k' then (k, v) # kvs
      else if k < k' then (k, v) # (k', v') # kvs
      else (k', v') # mapStore k v kvs)"

text \<open>\<^verbatim>\<open>v, ok := m[k]\<close>\<close>

definition mapIndex :: "(string \<times> 'v) list \<Rightarrow> string \<Rightarrow> 'v option" where
  "mapIndex m k = map_of m k"

definition strictKeys :: "(string \<times> 'v) list \<Rightarrow> bool" where
  "strictKeys kvs = sorted_wrt (<) (map fst kvs)"

subsection \<open>Encoding: \<^verbatim>\<open>json.Marshal\<close>\<close>

definition hexDigit :: "nat \<Rightarrow> char" where
  "hexDigit n = ''0123456789abcdef'' ! n"

text \<open>
  One byte of a string, as \<^verbatim>\<open>encoding/json\<close> writes it (HTML escaping is on by default):
  short escapes for the quote, the backslash and five control characters, \<^verbatim>\<open>\u00XX\<close> for
  the other control characters and for \<^verbatim>\<open><\<close>, \<^verbatim>\<open>>\<close>, \<^verbatim>\<open>&\<close>.
\<close>

definition escapeByte :: "char \<Rightarrow> string" where
  "escapeByte c =
     (if c = CHR 0x22 then [CHR 0x5C, CHR 0x22]
      else if c = CHR 0x5C then [CHR 0x5C, CHR 0x5C]
      else if c = CHR 0x08 then [CHR 0x5C, CHR ''b'']
      else if c = CHR 0x0C then [CHR 0x5C, CHR ''f'']
      else if c = CHR 0x0A then [CHR 0x5C, CHR ''n'']
      else if c = CHR 0x0D then [CHR 0x5C, CHR ''r'']
      else if c = CHR 0x09 then [CHR 0x5C, CHR ''t'']
      else if c < CHR 0x20 \<or> c = CHR ''<'' \<or> c = CHR ''>'' \<or> c = CHR ''&''
        then [CHR 0x5C, CHR ''u'', CHR ''0'', CHR ''0'',
              hexDigit (of_char c div 16), hexDigit (of_char c mod 16)]
      else [c])"

definition quoteString :: "string \<Rightarrow> string" where
  "quoteString s = CHR 0x22 # concat (map escapeByte s) @ [CHR 0x22]"

text \<open>The decimal digits of a number that is not negative, as \<^verbatim>\<open>strconv\<close> writes them.\<close>

function showNat :: "int \<Rightarrow> string" where
  "showNat n =
     (if n < 10 then [hexDigit (nat n)] else showNat (n div 10) @ [hexDigit (nat (n mod 10))])"
  by pat_completeness auto
termination
  by (relation "measure nat") auto

definition showInt :: "int \<Rightarrow> string" where
  "showInt i = (if i < 0 then CHR ''-'' # showNat (- i) else showNat i)"

fun printJSON :: "json \<Rightarrow> string"
and printElems :: "json list \<Rightarrow> string"
and printMembers :: "(string \<times> json) list \<Rightarrow> string" where
  "printJSON JNull = ''null''"
| "printJSON (JBool b) = (if b then ''true'' else ''false'')"
| "printJSON (JNum i) = showInt i"
| "printJSON (JString s) = quoteString s"
| "printJSON (JArray vs) = ''['' @ printElems vs @ '']''"
| "printJSON (JObject kvs) = ''{'' @ printMembers kvs @ ''}''"
| "printJSON JUnsupported = []"
| "printElems [] = []"
| "printElems [v] = printJSON v"
| "printElems (v # w # vs) = printJSON v @ '','' @ printElems (w # vs)"
| "printMembers [] = []"
| "printMembers [(k, v)] = quoteString k @ '':'' @ printJSON v"
| "printMembers ((k, v) # m # kvs) =
     quoteString k @ '':'' @ printJSON v @ '','' @ printMembers (m # kvs)"

text \<open>A value \<^verbatim>\<open>encoding/json\<close> can encode: no unsupported value anywhere in it.\<close>

fun supported :: "json \<Rightarrow> bool"
and supportedElems :: "json list \<Rightarrow> bool"
and supportedMembers :: "(string \<times> json) list \<Rightarrow> bool" where
  "supported JUnsupported = False"
| "supported (JArray vs) = supportedElems vs"
| "supported (JObject kvs) = supportedMembers kvs"
| "supported JNull = True"
| "supported (JBool b) = True"
| "supported (JNum i) = True"
| "supported (JString s) = True"
| "supportedElems [] = True"
| "supportedElems (v # vs) = (supported v \<and> supportedElems vs)"
| "supportedMembers [] = True"
| "supportedMembers ((k, v) # kvs) = (supported v \<and> supportedMembers kvs)"

definition jsonMarshal :: "json \<Rightarrow> error + string" where
  "jsonMarshal v = (if supported v then Inr (printJSON v) else Inl MarshalError)"

subsection \<open>Decoding: \<^verbatim>\<open>json.Unmarshal\<close>\<close>

definition isSpace :: "char \<Rightarrow> bool" where
  "isSpace c = (c = CHR 0x20 \<or> c = CHR 0x09 \<or> c = CHR 0x0A \<or> c = CHR 0x0D)"

definition skipSpace :: "string \<Rightarrow> string" where
  "skipSpace s = dropWhile isSpace s"

definition isDigit :: "char \<Rightarrow> bool" where
  "isDigit c = (CHR ''0'' \<le> c \<and> c \<le> CHR ''9'')"

definition digitVal :: "char \<Rightarrow> int" where
  "digitVal c = of_char c - 48"

definition hexVal :: "char \<Rightarrow> int option" where
  "hexVal c =
     (if isDigit c then Some (digitVal c)
      else if CHR ''a'' \<le> c \<and> c \<le> CHR ''f'' then Some (of_char c - 87)
      else if CHR ''A'' \<le> c \<and> c \<le> CHR ''F'' then Some (of_char c - 55)
      else None)"

text \<open>\<^verbatim>\<open>getu4\<close>: the code unit of a \<^verbatim>\<open>\uXXXX\<close> escape at the head of the text.\<close>

definition getu4 :: "string \<Rightarrow> int option" where
  "getu4 s =
     (case s of
        b # u # h1 # h2 # h3 # h4 # _ \<Rightarrow>
          if b = CHR 0x5C \<and> u = CHR ''u'' then
            (case (hexVal h1, hexVal h2, hexVal h3, hexVal h4) of
               (Some a, Some b, Some c, Some d) \<Rightarrow> Some (((a * 16 + b) * 16 + c) * 16 + d)
             | _ \<Rightarrow> None)
          else None
      | _ \<Rightarrow> None)"

definition replacementChar :: string where
  "replacementChar = [CHR 0xEF, CHR 0xBF, CHR 0xBD]"

text \<open>\<^verbatim>\<open>utf8.EncodeRune\<close>\<close>

definition encodeRune :: "int \<Rightarrow> string" where
  "encodeRune r =
     (if r < 0x80 then [char_of r]
      else if r < 0x800 then [char_of (0xC0 + r div 64), char_of (0x80 + r mod 64)]
      else if (0xD800 \<le> r \<and> r < 0xE000) \<or> 0x10FFFF < r then replacementChar
      else if r < 0x10000 then
        [char_of (0xE0 + r div 4096), char_of (0x80 + r div 64 mod 64), char_of (0x80 + r mod 64)]
      else
        [char_of (0xF0 + r div 262144), char_of (0x80 + r div 4096 mod 64),
         char_of (0x80 + r div 64 mod 64), char_of (0x80 + r mod 64)])"

text \<open>\<^verbatim>\<open>utf16.DecodeRune\<close>: the code point of a surrogate pair, if it is one.\<close>

definition decodeSurrogates :: "int \<Rightarrow> int \<Rightarrow> int option" where
  "decodeSurrogates r1 r2 =
     (if 0xD800 \<le> r1 \<and> r1 < 0xDC00 \<and> 0xDC00 \<le> r2 \<and> r2 < 0xE000
      then Some ((r1 - 0xD800) * 1024 + (r2 - 0xDC00) + 0x10000)
      else None)"

definition unescape :: "char \<Rightarrow> char option" where
  "unescape e =
     (if e = CHR 0x22 \<or> e = CHR 0x5C \<or> e = CHR ''/'' then Some e
      else if e = CHR ''b'' then Some (CHR 0x08)
      else if e = CHR ''f'' then Some (CHR 0x0C)
      else if e = CHR ''n'' then Some (CHR 0x0A)
      else if e = CHR ''r'' then Some (CHR 0x0D)
      else if e = CHR ''t'' then Some (CHR 0x09)
      else None)"

definition consTo :: "string \<Rightarrow> (string \<times> string) option \<Rightarrow> (string \<times> string) option" where
  "consTo pre r = (case r of None \<Rightarrow> None | Some (t, rest) \<Rightarrow> Some (pre @ t, rest))"

text \<open>
  The body of a string literal, read after its opening quote up to the closing quote: the
  decoded bytes and the text that follows. A raw control character, an unknown escape and
  an unfinished literal are syntax errors.
\<close>

function unquoteBody :: "string \<Rightarrow> (string \<times> string) option" where
  "unquoteBody [] = None"
| "unquoteBody (c # s) =
     (if c = CHR 0x22 then Some ([], s)
      else if c = CHR 0x5C then
        (case s of
           [] \<Rightarrow> None
         | e # s' \<Rightarrow>
             if e = CHR ''u'' then
               (case getu4 (c # s) of
                  None \<Rightarrow> None
                | Some rr \<Rightarrow>
                    if 0xD800 \<le> rr \<and> rr < 0xE000 then
                      (case getu4 (drop 5 s) of
                         None \<Rightarrow> consTo replacementChar (unquoteBody (drop 5 s))
                       | Some rr1 \<Rightarrow>
                           (case decodeSurrogates rr rr1 of
                              None \<Rightarrow> consTo replacementChar (unquoteBody (drop 5 s))
                            | Some dec \<Rightarrow> consTo (encodeRune dec) (unquoteBody (drop 11 s))))
                    else consTo (encodeRune rr) (unquoteBody (drop 5 s)))
             else
               (case unescape e of
                  None \<Rightarrow> None
                | Some b \<Rightarrow> consTo [b] (unquoteBody s')))
      else if c < CHR 0x20 then None
      else consTo [c] (unquoteBody s))"
  by pat_completeness auto
termination
  by (relation "measure length") auto

definition intOfDigits :: "string \<Rightarrow> int" where
  "intOfDigits ds = foldl (\<lambda>a c. 10 * a + digitVal c) 0 ds"

text \<open>An unsigned integer literal: digits, with no leading zero unless it is \<^verbatim>\<open>0\<close>.\<close>

definition parseNat :: "string \<Rightarrow> (int \<times> string) option" where
  "parseNat s =
     (let ds = takeWhile isDigit s in
      if ds = [] \<or> (1 < length ds \<and> hd ds = CHR ''0'') then None
      else if 9007199254740992 \<le> intOfDigits ds then None
      else Some (intOfDigits ds, dropWhile isDigit s))"

definition parseNumber :: "string \<Rightarrow> (json \<times> string) option" where
  "parseNumber s =
     (case s of
        [] \<Rightarrow> None
      | c # r \<Rightarrow>
          if c = CHR ''-'' then
            (case parseNat r of None \<Rightarrow> None | Some (n, r') \<Rightarrow> Some (JNum (- n), r'))
          else
            (case parseNat s of None \<Rightarrow> None | Some (n, r') \<Rightarrow> Some (JNum n, r')))"

text \<open>
  The recursive-descent reader. The first argument bounds the number of nested calls;
  \<open>jsonUnmarshal\<close> starts it with more than twice the length of the text, a bound that no
  text reaches (\<open>jsonUnmarshal_fuel\<close> below).
  Duplicate keys of an object: the last one wins, as in a Go map.
\<close>

fun parseValue :: "nat \<Rightarrow> string \<Rightarrow> (json \<times> string) option"
and parseElems :: "nat \<Rightarrow> json list \<Rightarrow> string \<Rightarrow> (json \<times> string) option"
and parseMembers :: "nat \<Rightarrow> (string \<times> json) list \<Rightarrow> string \<Rightarrow> (json \<times> string) option"
where
  "parseValue 0 s = None"
| "parseValue (Suc n) s =
     (case skipSpace s of
        [] \<Rightarrow> None
      | c # r \<Rightarrow>
          if c = CHR ''{'' then
            (case skipSpace r of
               [] \<Rightarrow> None
             | d # r' \<Rightarrow> if d = CHR ''}'' then Some (JObject [], r') else parseMembers n [] r)
          else if c = CHR ''['' then
            (case skipSpace r of
               [] \<Rightarrow> None
             | d # r' \<Rightarrow> if d = CHR '']'' then Some (JArray [], r') else parseElems n [] r)
          else if c = CHR 0x22 then
            (case unquoteBody r of None \<Rightarrow> None | Some (t, r') \<Rightarrow> Some (JString t, r'))
          else if c = CHR ''t'' then
            (if take 3 r = ''rue'' then Some (JBool True, drop 3 r) else None)
          else if c = CHR ''f'' then
            (if take 4 r = ''alse'' then Some (JBool False, drop 4 r) else None)
          else if c = CHR ''n'' then
            (if take 3 r = ''ull'' then Some (JNull, drop 3 r) else None)
          else parseNumber (c # r))"
| "parseElems 0 acc s = None"
| "parseElems (Suc n) acc s =
     (case parseValue n s of
        None \<Rightarrow> None
      | Some (v, r) \<Rightarrow>
          (case skipSpace r of
             [] \<Rightarrow> None
           | c # r' \<Rightarrow>
               if c = CHR '','' then parseElems n (acc @ [v]) r'
               else if c = CHR '']'' then Some (JArray (acc @ [v]), r')
               else None))"
| "parseMembers 0 acc s = None"
| "parseMembers (Suc n) acc s =
     (case skipSpace s of
        [] \<Rightarrow> None
      | q # r \<Rightarrow>
          if q \<noteq> CHR 0x22 then None
          else
            (case unquoteBody r of
               None \<Rightarrow> None
             | Some (k, r1) \<Rightarrow>
                 (case skipSpace r1 of
                    [] \<Rightarrow> None
                  | c # r2 \<Rightarrow>
                      if c \<noteq> CHR '':'' then None
                      else
                        (case parseValue n r2 of
                           None \<Rightarrow> None
                         | Some (v, r3) \<Rightarrow>
                             (case skipSpace r3 of
                                [] \<Rightarrow> None
                              | d # r4 \<Rightarrow>
                                  if d = CHR '','' then parseMembers n (mapStore k v acc) r4
                                  else if d = CHR ''}'' then Some (JObject (mapStore k v acc), r4)
                                  else None)))))"

definition jsonUnmarshal :: "string \<Rightarrow> json option" where
  "jsonUnmarshal s =
     (case parseValue (2 * length s + 1) s of
        None \<Rightarrow> None
      | Some (v, r) \<Rightarrow> if skipSpace r = [] then Some v else None)"

subsection \<open>Documents of the fragment\<close>

text \<open>
  A document as Go holds it and as the fragment covers it: every value can be encoded, every
  number is below \<open>2^53\<close> in magnitude, and the keys of every map are strictly increasing
  (a Go map has each key once; the order is that of the encoder).
\<close>

fun wfJSON :: "json \<Rightarrow> bool"
and wfElems :: "json list \<Rightarrow> bool"
and wfMembers :: "(string \<times> json) list \<Rightarrow> bool" where
  "wfJSON JNull = True"
| "wfJSON (JBool b) = True"
| "wfJSON (JNum i) = (- 9007199254740992 < i \<and> i < 9007199254740992)"
| "wfJSON (JString s) = True"
| "wfJSON (JArray vs) = wfElems vs"
| "wfJSON (JObject kvs) = (strictKeys kvs \<and> wfMembers kvs)"
| "wfJSON JUnsupported = False"
| "wfElems [] = True"
| "wfElems (v # vs) = (wfJSON v \<and> wfElems vs)"
| "wfMembers [] = True"
| "wfMembers ((k, v) # kvs) = (wfJSON v \<and> wfMembers kvs)"

section \<open>The library calls of the plugin\<close>

subsection \<open>\<^verbatim>\<open>strings.ReplaceAll\<close>\<close>

definition hasPrefix :: "string \<Rightarrow> string \<Rightarrow> bool" where
  "hasPrefix s p = (take (length p) s = p)"

text \<open>
  A pattern that is not empty: the matches are found from left to right and do not overlap;
  the text between them is copied.
\<close>

function replaceNonEmpty :: "string \<Rightarrow> string \<Rightarrow> string \<Rightarrow> string" where
  "replaceNonEmpty [] old new = []"
| "replaceNonEmpty (c # s) old new =
     (if old \<noteq> [] \<and> hasPrefix (c # s) old
      then new @ replaceNonEmpty (drop (length old) (c # s)) old new
      else c # replaceNonEmpty s old new)"
  by pat_completeness auto
termination
  by (relation "measure (\<lambda>(s, old, new). length s)") auto

definition isCont :: "char \<Rightarrow> bool" where
  "isCont c = (CHR 0x80 \<le> c \<and> c \<le> CHR 0xBF)"

text \<open>The width of the first rune of a text, as \<^verbatim>\<open>utf8.DecodeRuneInString\<close> returns it:
  1 for an ASCII byte and for a byte that starts no well-formed sequence.\<close>

definition runeWidth :: "string \<Rightarrow> nat" where
  "runeWidth s =
     (case s of
        [] \<Rightarrow> 0
      | s0 # t \<Rightarrow>
          if s0 < CHR 0xC2 \<or> CHR 0xF4 < s0 then 1
          else if s0 \<le> CHR 0xDF then
            (case t of s1 # _ \<Rightarrow> if isCont s1 then 2 else 1 | _ \<Rightarrow> 1)
          else if s0 \<le> CHR 0xEF then
            (case t of
               s1 # s2 # _ \<Rightarrow>
                 if (if s0 = CHR 0xE0 then CHR 0xA0 else CHR 0x80) \<le> s1
                    \<and> s1 \<le> (if s0 = CHR 0xED then CHR 0x9F else CHR 0xBF) \<and> isCont s2
                 then 3 else 1
             | _ \<Rightarrow> 1)
          else
            (case t of
               s1 # s2 # s3 # _ \<Rightarrow>
                 if (if s0 = CHR 0xF0 then CHR 0x90 else CHR 0x80) \<le> s1
                    \<and> s1 \<le> (if s0 = CHR 0xF4 then CHR 0x8F else CHR 0xBF)
                    \<and> isCont s2 \<and> isCont s3
                 then 4 else 1
             | _ \<Rightarrow> 1))"

text \<open>The empty pattern matches after every rune (and, in \<open>ReplaceAll\<close>, at the start).\<close>

fun insertAfterRunes :: "string \<Rightarrow> string \<Rightarrow> string" where
  "insertAfterRunes [] new = []"
| "insertAfterRunes (c # s) new =
     c # take (runeWidth (c # s) - 1) s @ new
       @ insertAfterRunes (drop (runeWidth (c # s) - 1) s) new"

definition ReplaceAll :: "string \<Rightarrow> string \<Rightarrow> string \<Rightarrow> string" where
  "ReplaceAll s old new =
     (if old = new then s
      else if old = [] then new @ insertAfterRunes s new
      else replaceNonEmpty s old new)"

text \<open>\<^verbatim>\<open>strings.Contains\<close>: the pattern occurs in the text, at some offset.\<close>

definition Contains :: "string \<Rightarrow> string \<Rightarrow> bool" where
  "Contains s substr = list_ex (\<lambda>i. hasPrefix (drop i s) substr) [0..<Suc (length s)]"

subsection \<open>Reading a document\<close>

text \<open>\<^verbatim>\<open>obj[k]\<close> on a document that may be the nil map.\<close>

definition index :: "json \<Rightarrow> string \<Rightarrow> json option" where
  "index obj k = (case obj of JObject kvs \<Rightarrow> mapIndex kvs k | _ \<Rightarrow> None)"

text \<open>\<^verbatim>\<open>unstructured.NestedFieldNoCopy\<close>: the value under a path of keys, if every step is a map
  that has the key.\<close>

fun nestedField :: "json \<Rightarrow> string list \<Rightarrow> json option" where
  "nestedField v [] = Some v"
| "nestedField v (f # fs) =
     (case index v f of None \<Rightarrow> None | Some w \<Rightarrow> nestedField w fs)"

text \<open>The accessors of \<^verbatim>\<open>Unstructured\<close> read a string under a path and yield the empty
  string when it is absent or is not a string.\<close>

definition nestedString :: "json \<Rightarrow> string list \<Rightarrow> string" where
  "nestedString obj fields =
     (case nestedField obj fields of Some (JString s) \<Rightarrow> s | _ \<Rightarrow> [])"

definition GetKind :: "json \<Rightarrow> string" where
  "GetKind u = nestedString u [''kind'']"

definition GetAPIVersion :: "json \<Rightarrow> string" where
  "GetAPIVersion u = nestedString u [''apiVersion'']"

definition GetName :: "json \<Rightarrow> string" where
  "GetName u = nestedString u [''metadata'', ''name'']"

text \<open>\<^verbatim>\<open>NestedStringMap\<close>: nil unless every value of the map is a string.\<close>

fun stringMap :: "(string \<times> json) list \<Rightarrow> (string \<times> string) list option" where
  "stringMap [] = Some []"
| "stringMap ((k, v) # kvs) =
     (case v of
        JString s \<Rightarrow> (case stringMap kvs of None \<Rightarrow> None | Some m \<Rightarrow> Some ((k, s) # m))
      | _ \<Rightarrow> None)"

definition GetLabels :: "json \<Rightarrow> (string \<times> string) list option" where
  "GetLabels u =
     (case nestedField u [''metadata'', ''labels''] of
        Some (JObject kvs) \<Rightarrow> stringMap kvs
      | _ \<Rightarrow> None)"

text \<open>
  \<^verbatim>\<open>GetObjectKind().GroupVersionKind().Kind\<close>: the kind, unless \<^verbatim>\<open>apiVersion\<close> does not
  parse as a group and version (more than one slash), in which case the whole
  \<^verbatim>\<open>GroupVersionKind\<close> is empty.
\<close>

definition GroupVersionKind_Kind :: "json \<Rightarrow> string" where
  "GroupVersionKind_Kind u =
     (if 1 < length (filter (\<lambda>c. c = CHR ''/'') (GetAPIVersion u)) then [] else GetKind u)"

text \<open>What a variable of type \<^verbatim>\<open>map[string]interface{}\<close> can hold: a map, or nil.\<close>

definition isMap :: "json \<Rightarrow> bool" where
  "isMap v = (case v of JObject kvs \<Rightarrow> True | JNull \<Rightarrow> True | _ \<Rightarrow> False)"

text \<open>\<^verbatim>\<open>json.Unmarshal\<close> into a \<^verbatim>\<open>map[string]interface{}\<close>: the text is an object, or
  \<^verbatim>\<open>null\<close> (which leaves the map nil and is no error).\<close>

definition unmarshalMap :: "string \<Rightarrow> error + json" where
  "unmarshalMap s =
     (case jsonUnmarshal s of
        None \<Rightarrow> Inl SyntaxError
      | Some (JObject kvs) \<Rightarrow> Inr (JObject kvs)
      | Some JNull \<Rightarrow> Inr JNull
      | Some _ \<Rightarrow> Inl UnmarshalTypeError)"

text \<open>\<^verbatim>\<open>json.Unmarshal\<close> into an \<^verbatim>\<open>Unstructured\<close> (its \<^verbatim>\<open>UnmarshalJSON\<close>): the
  decoder of \<^verbatim>\<open>UnstructuredJSONScheme\<close> refuses an object whose kind is empty.\<close>

definition unmarshalUnstructured :: "string \<Rightarrow> error + json" where
  "unmarshalUnstructured s =
     (case unmarshalMap s of
        Inl e \<Rightarrow> Inl e
      | Inr obj \<Rightarrow> if GroupVersionKind_Kind obj = [] then Inl MissingKindError else Inr obj)"

section \<open>The cluster as the plugin sees it\<close>

text \<open>
  A label selector is modelled in its parsed form: the list of \<^verbatim>\<open>key=value\<close> requirements
  that its text (\<^verbatim>\<open>"k1=v1,k2=v2"\<close>) stands for.
\<close>

type_synonym labelSelector = "(string \<times> string) list"

definition matchesSelector :: "labelSelector \<Rightarrow> (string \<times> string) list \<Rightarrow> bool" where
  "matchesSelector sel labels = list_all (\<lambda>(k, v). map_of labels k = Some v) sel"

record ConfigMap =
  cmLabels :: "(string \<times> string) list"
  cmData :: "(string \<times> string) list"

datatype PodVolumeRestorePhase = PhaseNew | PhaseInProgress | PhaseCompleted | PhaseFailed

record PodVolumeRestore =
  pvrName :: string
  pvrLabels :: "(string \<times> string) list"
  specPodName :: string
  statusPhase :: PodVolumeRestorePhase

text \<open>
  The two clients of the plugin talk to the API server, whose answers the plugin does not
  control: a call can fail. \<open>cmListFails\<close>, \<open>pvrListFails\<close> and \<open>pvrUpdateFails\<close> say
  which calls fail. The ConfigMaps of namespace \<^verbatim>\<open>velero\<close> are read only; the
  PodVolumeRestore records of that namespace are the state that \<open>UpdateStatus\<close> changes, and
  are passed along explicitly.
\<close>

record ConfigMapInterface =
  cmItems :: "ConfigMap list"
  cmListFails :: bool

record VeleroV1Interface =
  pvrListFails :: bool
  pvrUpdateFails :: "PodVolumeRestore \<Rightarrow> bool"

record RestorePlugin =
  configMapClient :: ConfigMapInterface
  veleroClient :: VeleroV1Interface

definition ConfigMaps_List :: "ConfigMapInterface \<Rightarrow> labelSelector \<Rightarrow> error + ConfigMap list" where
  "ConfigMaps_List c sel =
     (if cmListFails c then Inl ListConfigMapsError
      else Inr (filter (\<lambda>cm. matchesSelector sel (cmLabels cm)) (cmItems c)))"

definition PodVolumeRestores_List ::
  "VeleroV1Interface \<Rightarrow> labelSelector \<Rightarrow> PodVolumeRestore list \<Rightarrow> error + PodVolumeRestore list" where
  "PodVolumeRestores_List c sel store =
     (if pvrListFails c then Inl ListPodVolumeRestoresError
      else Inr (filter (\<lambda>pvr. matchesSelector sel (pvrLabels pvr)) store))"

text \<open>\<^verbatim>\<open>UpdateStatus\<close> writes the status of the submitted object over that of the stored
  record of the same name; it fails when the call fails or no such record is stored.\<close>

definition PodVolumeRestores_UpdateStatus ::
  "VeleroV1Interface \<Rightarrow> PodVolumeRestore \<Rightarrow> PodVolumeRestore list \<Rightarrow> error + PodVolumeRestore list" where
  "PodVolumeRestores_UpdateStatus c pvr store =
     (if pvrUpdateFails c pvr \<or> pvrName pvr \<notin> set (map pvrName store)
      then Inl UpdatePodVolumeRestoreError
      else Inr (map (\<lambda>r. if pvrName r = pvrName pvr then r\<lparr>statusPhase := statusPhase pvr\<rparr> else r)
                    store))"

section \<open>The plugin\<close>

record RestoreItemActionExecuteInput =
  Item :: json

record RestoreItemActionExecuteOutput =
  UpdatedItem :: json

definition NewRestoreItemActionExecuteOutput :: "json \<Rightarrow> RestoreItemActionExecuteOutput" where
  "NewRestoreItemActionExecuteOutput item = \<lparr>UpdatedItem = item\<rparr>"

subsection \<open>\<^verbatim>\<open>getConfigMapDataByLabel\<close>\<close>

definition getConfigMapDataByLabel ::
  "RestorePlugin \<Rightarrow> labelSelector \<Rightarrow> error + (string \<times> string) list" where
  "getConfigMapDataByLabel p labelSelector =
     (case ConfigMaps_List (configMapClient p) labelSelector of
        Inl err \<Rightarrow> Inl ListConfigMapsError
      | Inr items \<Rightarrow>
          if length items = 0 then Inl NoConfigMapFound
          else Inr (fold (\<lambda>configMap aggregatedPatterns.
                            fold (\<lambda>(key, val) m. mapStore key val m) (cmData configMap)
                                 aggregatedPatterns)
                         items []))"

subsection \<open>\<^verbatim>\<open>extractMetadataName\<close> and \<^verbatim>\<open>restoreMetadataName\<close>\<close>

definition extractMetadataName :: "string \<Rightarrow> string" where
  "extractMetadataName jsonData =
     (case unmarshalMap jsonData of
        Inl err \<Rightarrow> []
      | Inr obj \<Rightarrow>
          (case index obj ''metadata'' of
             Some (JObject metadata) \<Rightarrow>
               (case mapIndex metadata ''name'' of Some (JString name) \<Rightarrow> name | _ \<Rightarrow> [])
           | _ \<Rightarrow> []))"

text \<open>\<^verbatim>\<open>metadata["name"] = originalName\<close> writes into the map that \<^verbatim>\<open>obj["metadata"]\<close>
  holds, so \<open>obj\<close> is changed with it.\<close>

definition setMetadataName :: "json \<Rightarrow> string \<Rightarrow> json" where
  "setMetadataName obj originalName =
     (case obj of
        JObject kvs \<Rightarrow>
          (case mapIndex kvs ''metadata'' of
             Some (JObject metadata) \<Rightarrow>
               JObject (mapStore ''metadata''
                          (JObject (mapStore ''name'' (JString originalName) metadata)) kvs)
           | _ \<Rightarrow> obj)
      | _ \<Rightarrow> obj)"

definition restoreMetadataName :: "string \<Rightarrow> string \<Rightarrow> string" where
  "restoreMetadataName modifiedString originalName =
     (case unmarshalMap modifiedString of
        Inl err \<Rightarrow> modifiedString
      | Inr obj \<Rightarrow>
          (case jsonMarshal (setMetadataName obj originalName) of
             Inl err \<Rightarrow> modifiedString
           | Inr result \<Rightarrow> result))"

subsection \<open>\<^verbatim>\<open>replacePatternAction\<close>\<close>

text \<open>
  \<^verbatim>\<open>for pattern, replacement := range patterns\<close> visits the entries of a Go map in an order
  that the language leaves open and that changes from run to run. \<open>visit\<close> is the order of one
  run: it lists the entries of the map as the loop meets them.
\<close>

type_synonym rangeOrder = "(string \<times> string) list \<Rightarrow> (string \<times> string) list"

definition applyPatterns :: "(string \<times> string) list \<Rightarrow> string \<Rightarrow> string" where
  "applyPatterns visited s =
     fold (\<lambda>(pattern, replacement) modifiedString. ReplaceAll modifiedString pattern replacement)
          visited s"

definition replacePatternAction ::
  "rangeOrder \<Rightarrow> RestoreItemActionExecuteInput \<Rightarrow> (string \<times> string) list
     \<Rightarrow> error + RestoreItemActionExecuteOutput" where
  "replacePatternAction visit input patterns =
     (case jsonMarshal (Item input) of
        Inl err \<Rightarrow> Inl err
      | Inr jsonData \<Rightarrow>
          let isPod = (GroupVersionKind_Kind (Item input) = ''Pod'');
              originalName = (if isPod then extractMetadataName jsonData else []);
              modifiedString = applyPatterns (visit patterns) jsonData;
              modifiedString' =
                (if isPod then restoreMetadataName modifiedString originalName
                 else modifiedString)
          in (case unmarshalUnstructured modifiedString' of
                Inl err \<Rightarrow> Inl err
              | Inr modifiedObj \<Rightarrow> Inr (NewRestoreItemActionExecuteOutput modifiedObj)))"


subsection \<open>\<^verbatim>\<open>triggerPodVolumeRestore\<close>\<close>

text \<open>The loop over the listed records: the first failed update ends it.\<close>

fun updateMatching ::
  "VeleroV1Interface \<Rightarrow> string \<Rightarrow> PodVolumeRestore list \<Rightarrow> PodVolumeRestore list
     \<Rightarrow> error option \<times> PodVolumeRestore list" where
  "updateMatching c name [] store = (None, store)"
| "updateMatching c name (pvr # items) store =
     (if specPodName pvr = name then
        (case PodVolumeRestores_UpdateStatus c (pvr\<lparr>statusPhase := PhaseInProgress\<rparr>) store of
           Inl err \<Rightarrow> (Some UpdatePodVolumeRestoreError, store)
         | Inr store' \<Rightarrow> updateMatching c name items store')
      else updateMatching c name items store)"

text \<open>\<^verbatim>\<open>labels[k]\<close> on a map of strings: the empty string when the key is absent.\<close>

definition labelValue :: "(string \<times> string) list \<Rightarrow> string \<Rightarrow> string" where
  "labelValue labels k = (case map_of labels k of None \<Rightarrow> [] | Some v \<Rightarrow> v)"

definition triggerPodVolumeRestore ::
  "RestorePlugin \<Rightarrow> json \<Rightarrow> PodVolumeRestore list \<Rightarrow> error option \<times> PodVolumeRestore list" where
  "triggerPodVolumeRestore p modifiedItem store =
     (if GetKind modifiedItem = ''Pod'' then
        (case GetLabels modifiedItem of
           None \<Rightarrow> (Some PodLabelsNil, store)
         | Some labels \<Rightarrow>
             let restoreName = labelValue labels ''velero.io/restore-name'';
                 restoreUID = labelValue labels ''velero.io/restore-uid''
             in if restoreName = [] \<or> restoreUID = [] then (Some MissingRestoreLabels, store)
                else
                  (case PodVolumeRestores_List (veleroClient p)
                          [(''velero.io/restore-name'', restoreName),
                           (''velero.io/restore-uid'', restoreUID)] store of
                     Inl err \<Rightarrow> (Some ListPodVolumeRestoresError, store)
                   | Inr items \<Rightarrow>
                       updateMatching (veleroClient p) (GetName modifiedItem) items store))
      else (None, store))"

subsection \<open>\<^verbatim>\<open>Execute\<close>\<close>

text \<open>
  The result of a call: the output or the error returned to Velero, the records after the
  call, and the warnings written to the log. (The type assertion on the updated item cannot
  fail: \<open>replacePatternAction\<close> returns an \<^verbatim>\<open>Unstructured\<close>.)
\<close>

definition Execute ::
  "RestorePlugin \<Rightarrow> rangeOrder \<Rightarrow> RestoreItemActionExecuteInput \<Rightarrow> PodVolumeRestore list
     \<Rightarrow> (error + RestoreItemActionExecuteOutput) \<times> PodVolumeRestore list \<times> error list" where
  "Execute p visit input store =
     (case getConfigMapDataByLabel p [(''agoracalyce.io/replace-pattern'', ''RestoreItemAction'')] of
        Inl err \<Rightarrow> (Inr (NewRestoreItemActionExecuteOutput (Item input)), store, [err])
      | Inr patterns \<Rightarrow>
          (case replacePatternAction visit input patterns of
             Inl err \<Rightarrow> (Inl err, store, [])
           | Inr output \<Rightarrow>
               (case triggerPodVolumeRestore p (UpdatedItem output) store of
                  (Some err, store') \<Rightarrow> (Inr output, store', [err])
                | (None, store') \<Rightarrow> (Inr output, store', []))))"

text \<open>The text that \<open>replacePatternAction\<close> hands to its final \<^verbatim>\<open>json.Unmarshal\<close>, given the
  serialized input.\<close>

definition modifiedText :: "rangeOrder \<Rightarrow> json \<Rightarrow> (string \<times> string) list \<Rightarrow> string \<Rightarrow> string" where
  "modifiedText visit item patterns jsonData =
     (if GroupVersionKind_Kind item = ''Pod''
      then restoreMetadataName (applyPatterns (visit patterns) jsonData)
             (extractMetadataName jsonData)
      else applyPatterns (visit patterns) jsonData)"

section \<open>Example values\<close>

text \<open>A ConfigMap that carries the label the plugin selects on, with the given rules.\<close>

definition rulesConfigMap :: "(string \<times> string) list \<Rightarrow> ConfigMap" where
  "rulesConfigMap rules =
     \<lparr>cmLabels = [(''agoracalyce.io/replace-pattern'', ''RestoreItemAction'')], cmData = rules\<rparr>"

text \<open>A plugin whose API calls all succeed, in a cluster with the given ConfigMaps.\<close>

definition pluginWith :: "ConfigMap list \<Rightarrow> RestorePlugin" where
  "pluginWith cms =
     \<lparr>configMapClient = \<lparr>cmItems = cms, cmListFails = False\<rparr>,
      veleroClient = \<lparr>pvrListFails = False, pvrUpdateFails = (\<lambda>r. False)\<rparr>\<rparr>"

text \<open>A Pod with the given name and labels, and a ConfigMap resource with the given name and
  data.\<close>

definition podOf :: "string \<Rightarrow> (string \<times> json) list \<Rightarrow> json" where
  "podOf name labels =
     JObject [(''apiVersion'', JString ''v1''), (''kind'', JString ''Pod''),
              (''metadata'', JObject [(''labels'', JObject labels), (''name'', JString name)])]"

definition configMapOf :: "string \<Rightarrow> (string \<times> json) list \<Rightarrow> json" where
  "configMapOf name entries =
     JObject [(''apiVersion'', JString ''v1''), (''data'', JObject entries),
              (''kind'', JString ''ConfigMap''),
              (''metadata'', JObject [(''name'', JString name)])]"


definition restoreLabels :: "(string \<times> string) list" where
  "restoreLabels = [(''velero.io/restore-name'', ''r1''), (''velero.io/restore-uid'', ''u1'')]"

definition restoreLabelsJSON :: "(string \<times> json) list" where
  "restoreLabelsJSON =
     [(''velero.io/restore-name'', JString ''r1''), (''velero.io/restore-uid'', JString ''u1'')]"

definition pvrOf :: "string \<Rightarrow> string \<Rightarrow> PodVolumeRestorePhase \<Rightarrow> PodVolumeRestore" where
  "pvrOf name pod ph =
     \<lparr>pvrName = name, pvrLabels = restoreLabels, specPodName = pod, statusPhase = ph\<rparr>"

section \<open>Encoding and decoding\<close>

subsection \<open>Numbers and strings\<close>

lemma of_char_hexDigit:
  "n < 16 \<Longrightarrow> (of_char (hexDigit n) :: nat) = (if n < 10 then 48 + n else 87 + n)"
proof -
  assume "n < 16"
  then have "n \<in> {0,1,2,3,4,5,6,7,8,9,10,11,12,13,14,15}" by simp arith
  then show ?thesis
    by (elim insertE emptyE) (simp_all add: hexDigit_def)
qed

lemma int_of_char: "(of_char c :: int) = int (of_char c)"
  by (simp add: of_nat_of_char)

lemma hexVal_hexDigit: "n < 16 \<Longrightarrow> hexVal (hexDigit n) = Some (int n)"
  by (simp add: hexVal_def isDigit_def digitVal_def less_eq_char_def int_of_char of_char_hexDigit)

lemma isDigit_hexDigit: "n < 10 \<Longrightarrow> isDigit (hexDigit n) \<and> digitVal (hexDigit n) = int n"
  by (simp add: isDigit_def digitVal_def less_eq_char_def int_of_char of_char_hexDigit)

lemma hexDigit_zero: "n < 10 \<Longrightarrow> (hexDigit n = CHR ''0'') = (n = 0)"
proof -
  assume "n < 10"
  then have "digitVal (hexDigit n) = int n" using isDigit_hexDigit by simp
  moreover have "digitVal (CHR ''0'') = 0" by (simp add: digitVal_def)
  moreover have "hexDigit 0 = CHR ''0''" by (simp add: hexDigit_def)
  ultimately show ?thesis by auto
qed

declare showNat.simps [simp del]

lemma intOfDigits_snoc: "intOfDigits (ds @ [c]) = 10 * intOfDigits ds + digitVal c"
  by (simp add: intOfDigits_def)

lemma showNat_digits:
  "0 \<le> n \<Longrightarrow> showNat n \<noteq> [] \<and> list_all isDigit (showNat n) \<and> intOfDigits (showNat n) = n"
proof (induction n rule: showNat.induct)
  case (1 n)
  show ?case
  proof (cases "n < 10")
    case True
    with 1 have "nat n < 10" by simp
    from isDigit_hexDigit [OF this] True 1(2) show ?thesis
      by (subst (1 2 3) showNat.simps) (simp add: intOfDigits_def)
  next
    case False
    then have "0 \<le> n div 10" by simp
    with 1(1) False have ih: "showNat (n div 10) \<noteq> []" "list_all isDigit (showNat (n div 10))"
      "intOfDigits (showNat (n div 10)) = n div 10" by simp_all
    have "nat (n mod 10) < 10" by simp
    from isDigit_hexDigit [OF this] ih False show ?thesis
      by (subst (1 2 3) showNat.simps) (simp add: intOfDigits_snoc)
  qed
qed

lemma showNat_hd: "0 < n \<Longrightarrow> hd (showNat n) \<noteq> CHR ''0''"
proof (induction n rule: showNat.induct)
  case (1 n)
  show ?case
  proof (cases "n < 10")
    case True
    with 1(2) have "nat n < 10" "nat n \<noteq> 0" by simp_all
    with hexDigit_zero [of "nat n"] True show ?thesis
      by (subst showNat.simps) simp
  next
    case False
    then have pos: "0 < n div 10" by simp
    then have "showNat (n div 10) \<noteq> []" using showNat_digits [of "n div 10"] by simp
    with 1(1) [OF False pos] False show ?thesis
      by (subst showNat.simps) simp
  qed
qed

lemma showNat_length: "1 < length (showNat n) \<Longrightarrow> 0 < n"
  by (subst (asm) showNat.simps) (simp split: if_splits)

lemma parseNat_showNat:
  assumes "0 \<le> n" and "n < 9007199254740992" and "rest = [] \<or> \<not> isDigit (hd rest)"
  shows "parseNat (showNat n @ rest) = Some (n, rest)"
proof -
  from showNat_digits [OF assms(1)]
  have ne: "showNat n \<noteq> []" and dig: "list_all isDigit (showNat n)"
    and val: "intOfDigits (showNat n) = n" by simp_all
  have rest: "takeWhile isDigit rest = []" "dropWhile isDigit rest = rest"
    using assms(3) by (cases rest; simp)+
  have tw: "takeWhile isDigit (showNat n @ rest) = showNat n"
    using dig rest by (simp add: takeWhile_append2 list_all_iff)
  have dw: "dropWhile isDigit (showNat n @ rest) = rest"
    using dig rest by (simp add: dropWhile_append2 list_all_iff)
  have lead: "\<not> (1 < length (showNat n) \<and> hd (showNat n) = CHR ''0'')"
    using showNat_length [of n] showNat_hd [of n] by blast
  show ?thesis
    using ne val lead assms(2) by (simp add: parseNat_def tw dw Let_def)
qed

lemma showNat_first: "0 \<le> n \<Longrightarrow> \<exists>c r. showNat n = c # r \<and> isDigit c"
  using showNat_digits [of n] by (cases "showNat n") simp_all

lemma isDigit_not_minus: "isDigit c \<Longrightarrow> c \<noteq> CHR ''-''"
  by (auto simp: isDigit_def)

lemma parseNumber_showInt:
  assumes "- 9007199254740992 < i" and "i < 9007199254740992"
      and "rest = [] \<or> \<not> isDigit (hd rest)"
  shows "parseNumber (showInt i @ rest) = Some (JNum i, rest)"
proof (cases "i < 0")
  case True
  then have "parseNat (showNat (- i) @ rest) = Some (- i, rest)"
    using assms by (intro parseNat_showNat) simp_all
  with True show ?thesis by (simp add: parseNumber_def showInt_def)
next
  case False
  then have p: "parseNat (showNat i @ rest) = Some (i, rest)"
    using assms by (intro parseNat_showNat) simp_all
  from False obtain c r where cr: "showNat i = c # r" "isDigit c"
    using showNat_first [of i] by auto
  with p False isDigit_not_minus [of c] show ?thesis
    by (simp add: parseNumber_def showInt_def)
qed



declare unquoteBody.simps [simp del]

lemma unquote_plain:
  "c \<noteq> CHR 0x22 \<Longrightarrow> c \<noteq> CHR 0x5C \<Longrightarrow> \<not> c < CHR 0x20 \<Longrightarrow> unquoteBody (c # X) = consTo [c] (unquoteBody X)"
  by (simp add: unquoteBody.simps)

lemma unquote_short:
  "unescape e = Some b \<Longrightarrow> e \<noteq> CHR ''u'' \<Longrightarrow> unquoteBody (CHR 0x5C # e # X) = consTo [b] (unquoteBody X)"
  by (simp add: unquoteBody.simps)

lemma char_split: "of_char c div 16 < (16::nat)" "of_char c mod 16 < (16::nat)"
  by (simp_all add: less_mult_imp_div_less)

lemma unquote_u00:
  assumes "c < CHR 0x80"
  shows "unquoteBody (CHR 0x5C # CHR ''u'' # CHR ''0'' # CHR ''0'' # hexDigit (of_char c div 16) # hexDigit (of_char c mod 16) # X)
         = consTo [c] (unquoteBody X)"
proof -
  have v: "int (of_char c div 16) * 16 + int (of_char c mod 16) = int (of_char c)"
    by (metis add.commute mod_mult_div_eq mult.commute of_nat_add of_nat_mult of_nat_numeral) 
  have small: "int (of_char c) < 128"
    using assms by (simp add: less_char_def)
  have h0: "hexVal CHR ''0'' = Some 0" by (simp add: hexVal_def isDigit_def digitVal_def)
  have g: "getu4 (CHR 0x5C # CHR ''u'' # CHR ''0'' # CHR ''0'' # hexDigit (of_char c div 16) # hexDigit (of_char c mod 16) # X)
           = Some (int (of_char c))"
    using v by (simp add: getu4_def h0 hexVal_hexDigit [OF char_split(1)] hexVal_hexDigit [OF char_split(2)])
  have e: "encodeRune (int (of_char c)) = [c]"
    using small by (simp add: encodeRune_def)
  show ?thesis
    using small by (simp add: unquoteBody.simps g e)
qed



lemma unquote_escapeByte: "unquoteBody (escapeByte c @ X) = consTo [c] (unquoteBody X)"
proof (cases "c = CHR 0x22 \<or> c = CHR 0x5C \<or> c = CHR 0x08 \<or> c = CHR 0x0C \<or> c = CHR 0x0A
               \<or> c = CHR 0x0D \<or> c = CHR 0x09")
  case True
  then show ?thesis
    by (elim disjE) (simp_all add: escapeByte_def unquote_short unescape_def)
next
  case short: False
  show ?thesis
  proof (cases "c < CHR 0x20 \<or> c = CHR ''<'' \<or> c = CHR ''>'' \<or> c = CHR ''&''")
    case True
    then have "c < CHR 0x80"
      by (elim disjE) (simp_all add: less_char_def)
    from unquote_u00 [OF this] short True show ?thesis
      by (simp add: escapeByte_def)
  next
    case False
    with short show ?thesis
      by (simp add: escapeByte_def unquote_plain)
  qed
qed

lemma unquote_escaped:
  "unquoteBody (concat (map escapeByte s) @ CHR 0x22 # rest) = Some (s, rest)"
proof (induction s)
  case Nil
  show ?case by (simp add: unquoteBody.simps)
next
  case (Cons c s)
  then show ?case by (simp add: unquote_escapeByte consTo_def)
qed

lemma unquote_quoteString:
  "quoteString s @ rest = CHR 0x22 # X \<Longrightarrow> unquoteBody X = Some (s, rest)"
  using unquote_escaped [of s rest] by (simp add: quoteString_def)

subsection \<open>Documents\<close>

lemma skipSpace_nonspace: "\<not> isSpace c \<Longrightarrow> skipSpace (c # r) = c # r"
  by (simp add: skipSpace_def)

lemma skipSpace_Nil: "skipSpace [] = []"
  by (simp add: skipSpace_def)

lemma number_start:
  assumes "isDigit c \<or> c = CHR ''-''"
  shows "\<not> isSpace c" "c \<noteq> CHR ''{''" "c \<noteq> CHR ''[''" "c \<noteq> CHR 0x22"
        "c \<noteq> CHR ''t''" "c \<noteq> CHR ''f''" "c \<noteq> CHR ''n''" "c \<noteq> CHR '']''"
  using assms by (auto simp: isDigit_def isSpace_def less_eq_char_def)

lemma showInt_first:
  "\<exists>c r. showInt i = c # r \<and> (isDigit c \<or> c = CHR ''-'')"
proof (cases "i < 0")
  case True
  then show ?thesis by (simp add: showInt_def)
next
  case False
  then show ?thesis using showNat_first [of i] by (auto simp: showInt_def)
qed

lemma parseValue_number:
  assumes "isDigit c \<or> c = CHR ''-''"
  shows "parseValue (Suc n) (c # r) = parseNumber (c # r)"
  using number_start [OF assms] by (simp add: skipSpace_nonspace)

lemma parseValue_JNum:
  assumes "- 9007199254740992 < i" and "i < 9007199254740992"
      and "rest = [] \<or> \<not> isDigit (hd rest)"
  shows "parseValue (Suc n) (showInt i @ rest) = Some (JNum i, rest)"
proof -
  obtain c r where cr: "showInt i = c # r" "isDigit c \<or> c = CHR ''-''"
    using showInt_first by blast
  have "parseValue (Suc n) (showInt i @ rest) = parseNumber (showInt i @ rest)"
    using parseValue_number [OF cr(2)] cr(1) by simp
  with parseNumber_showInt [OF assms] show ?thesis by simp
qed

lemma parseValue_JNull: "parseValue (Suc n) (''null'' @ rest) = Some (JNull, rest)"
  by (simp add: skipSpace_nonspace isSpace_def)

lemma parseValue_JBool:
  "parseValue (Suc n) ((if b then ''true'' else ''false'') @ rest) = Some (JBool b, rest)"
  by (simp add: skipSpace_nonspace isSpace_def)

lemma parseValue_JString:
  "parseValue (Suc n) (quoteString s @ rest) = Some (JString s, rest)"
  by (simp add: quoteString_def skipSpace_nonspace isSpace_def unquote_escaped)

lemma printJSON_first:
  "wfJSON v \<Longrightarrow> \<exists>c r. printJSON v = c # r \<and> \<not> isSpace c \<and> c \<noteq> CHR '']''"
proof (cases v)
  case (JNum i)
  obtain c r where "showInt i = c # r" "isDigit c \<or> c = CHR ''-''"
    using showInt_first by blast
  with JNum number_start [of c] show ?thesis by auto
qed (auto simp: isSpace_def quoteString_def)


lemma mapStore_snoc:
  "\<forall>k' \<in> fst ` set acc. k' < k \<Longrightarrow> mapStore k v acc = acc @ [(k, v)]"
  by (induction acc) (auto simp: less_le_not_le)

lemma fold_mapStore_sorted:
  "strictKeys (acc @ kvs) \<Longrightarrow> fold (\<lambda>(k, v). mapStore k v) kvs acc = acc @ kvs"
proof (induction kvs arbitrary: acc)
  case Nil
  show ?case by simp
next
  case (Cons kv kvs)
  obtain k v where kv: "kv = (k, v)" by (cases kv)
  from Cons.prems have "\<forall>k' \<in> fst ` set acc. k' < k"
    by (auto simp: strictKeys_def kv sorted_wrt_append)
  then have "mapStore k v acc = acc @ [(k, v)]" by (rule mapStore_snoc)
  moreover have "strictKeys ((acc @ [(k, v)]) @ kvs)" using Cons.prems by (simp add: kv)
  ultimately show ?case using Cons.IH [of "acc @ [(k, v)]"] by (simp add: kv)
qed

lemma printJSON_length: "wfJSON v \<Longrightarrow> 0 < length (printJSON v)"
  using printJSON_first [of v] by auto

lemma roundtrip_aux:
  "wfJSON v \<Longrightarrow> length (printJSON v) \<le> fuel \<Longrightarrow> rest = [] \<or> \<not> isDigit (hd rest)
     \<Longrightarrow> parseValue fuel (printJSON v @ rest) = Some (v, rest)"
  "vs \<noteq> [] \<Longrightarrow> wfElems vs \<Longrightarrow> length (printElems vs) < fuel
     \<Longrightarrow> parseElems fuel acc (printElems vs @ CHR '']'' # rest) = Some (JArray (acc @ vs), rest)"
  "kvs \<noteq> [] \<Longrightarrow> wfMembers kvs \<Longrightarrow> length (printMembers kvs) < fuel
     \<Longrightarrow> parseMembers fuel macc (printMembers kvs @ CHR ''}'' # rest)
         = Some (JObject (fold (\<lambda>(k, v). mapStore k v) kvs macc), rest)"
proof (induction v and vs and kvs arbitrary: fuel rest and fuel acc rest and fuel macc rest
       rule: printJSON_printElems_printMembers.induct)
  case 1
  then obtain n where "fuel = Suc n" by (cases fuel) auto
  then show ?case using parseValue_JNull [of n rest] by simp
next
  case (2 b)
  then obtain n where "fuel = Suc n" by (cases fuel) (auto split: if_splits)
  then show ?case using parseValue_JBool [of n b rest] by simp
next
  case (3 i)
  from 3(1) have "0 < length (printJSON (JNum i))" by (rule printJSON_length)
  with 3(2) obtain n where "fuel = Suc n" by (cases fuel) auto
  then show ?case using parseValue_JNum [of i rest n] 3 by simp
next
  case (4 s)
  then obtain n where "fuel = Suc n" by (cases fuel) (auto simp: quoteString_def)
  then show ?case using parseValue_JString [of n s rest] by simp
next
  case (5 vs)
  then obtain n where n: "fuel = Suc n" by (cases fuel) auto
  show ?case
  proof (cases vs)
    case Nil
    then show ?thesis by (simp add: n skipSpace_nonspace isSpace_def)
  next
    case (Cons v ws)
    with 5(2) have "wfJSON v" by simp
    then obtain c r where c: "printJSON v = c # r" "\<not> isSpace c" "c \<noteq> CHR '']''"
      using printJSON_first by blast
    then obtain r' where r': "printElems vs = c # r'"
      using Cons by (cases ws) auto
    have len: "length (printElems vs) < n" using 5(3) n by simp
    have "parseValue fuel (printJSON (JArray vs) @ rest)
            = parseElems n [] (printElems vs @ CHR '']'' # rest)"
      using c(2,3) r' by (simp add: n skipSpace_nonspace isSpace_def)
    also have "\<dots> = Some (JArray ([] @ vs), rest)"
      using Cons 5(2) len by (intro 5(1)) simp_all
    finally show ?thesis by simp
  qed
next
  case (6 kvs)
  then obtain n where n: "fuel = Suc n" by (cases fuel) auto
  show ?case
  proof (cases kvs)
    case Nil
    then show ?thesis by (simp add: n skipSpace_nonspace isSpace_def)
  next
    case (Cons kv ws)
    obtain r' where r': "printMembers kvs = CHR 0x22 # r'"
      using Cons by (cases kv; cases ws) (auto simp: quoteString_def)
    have len: "length (printMembers kvs) < n" using 6(3) n by simp
    have "parseValue fuel (printJSON (JObject kvs) @ rest)
            = parseMembers n [] (printMembers kvs @ CHR ''}'' # rest)"
      using r' by (simp add: n skipSpace_nonspace isSpace_def)
    also have "\<dots> = Some (JObject (fold (\<lambda>(k, v). mapStore k v) kvs []), rest)"
      using Cons 6(2) len by (intro 6(1)) simp_all
    also have "fold (\<lambda>(k, v). mapStore k v) kvs [] = kvs"
      using 6(2) fold_mapStore_sorted [of "[]" kvs] by simp
    finally show ?thesis .
  qed
next
  case 7
  then show ?case by simp
next
  case 8
  then show ?case by simp
next
  case (9 v)
  then obtain n where n: "fuel = Suc n" by (cases fuel) auto
  have "parseValue n (printJSON v @ CHR '']'' # rest) = Some (v, CHR '']'' # rest)"
    using 9 n by (intro 9(1)) (simp_all add: isDigit_def less_eq_char_def)
  then show ?case by (simp add: n skipSpace_nonspace isSpace_def)
next
  case (10 v w vs)
  then obtain n where n: "fuel = Suc n" by (cases fuel) auto
  let ?tail = "printElems (w # vs) @ CHR '']'' # rest"
  have pos: "0 < length (printJSON v)" using 10(4) printJSON_length [of v] by simp
  have "parseValue n (printJSON v @ CHR '','' # ?tail) = Some (v, CHR '','' # ?tail)"
    using 10(4,5) n by (intro 10(1)) (simp_all add: isDigit_def less_eq_char_def)
  moreover have "parseElems n (acc @ [v]) ?tail = Some (JArray ((acc @ [v]) @ w # vs), rest)"
    using 10(4,5) n pos by (intro 10(2)) simp_all
  ultimately show ?case by (simp add: n skipSpace_nonspace isSpace_def)
next
  case 11
  then show ?case by simp
next
  case (12 k v)
  then obtain n where n: "fuel = Suc n" by (cases fuel) auto
  have v: "parseValue n (printJSON v @ CHR ''}'' # rest) = Some (v, CHR ''}'' # rest)"
    using 12 n by (intro 12(1)) (simp_all add: isDigit_def less_eq_char_def)
  have q: "unquoteBody (concat (map escapeByte k) @ CHR 0x22 # CHR '':'' # printJSON v @ CHR ''}'' # rest)
            = Some (k, CHR '':'' # printJSON v @ CHR ''}'' # rest)"
    by (rule unquote_escaped)
  show ?case using v q by (simp add: n quoteString_def skipSpace_nonspace isSpace_def)
next
  case (13 k v m kvs)
  then obtain n where n: "fuel = Suc n" by (cases fuel) auto
  let ?tail = "printMembers (m # kvs) @ CHR ''}'' # rest"
  have v: "parseValue n (printJSON v @ CHR '','' # ?tail) = Some (v, CHR '','' # ?tail)"
    using 13(4,5) n by (intro 13(1)) (simp_all add: isDigit_def less_eq_char_def)
  have q: "unquoteBody (concat (map escapeByte k) @ CHR 0x22 # CHR '':'' # printJSON v @ CHR '','' # ?tail)
            = Some (k, CHR '':'' # printJSON v @ CHR '','' # ?tail)"
    by (rule unquote_escaped)
  have r: "parseMembers n (mapStore k v macc) ?tail
             = Some (JObject (fold (\<lambda>(k, v). mapStore k v) (m # kvs) (mapStore k v macc)), rest)"
    using 13(4,5) n by (intro 13(2)) simp_all
  show ?case using v q r by (simp add: n quoteString_def skipSpace_nonspace isSpace_def)
qed

text \<open>Decoding the encoding of a document of the fragment gives the document back.\<close>

lemma jsonUnmarshal_printJSON: "wfJSON v \<Longrightarrow> jsonUnmarshal (printJSON v) = Some v"
  using roundtrip_aux(1) [of v "2 * length (printJSON v) + 1" "[]"]
  by (simp add: jsonUnmarshal_def skipSpace_Nil)


lemma set_mapStore: "fst ` set (mapStore k v kvs) = insert k (fst ` set kvs)"
  by (induction k v kvs rule: mapStore.induct) (simp_all add: insert_commute)

lemma strictKeys_mapStore: "strictKeys kvs \<Longrightarrow> strictKeys (mapStore k v kvs)"
proof (induction kvs)
  case Nil
  show ?case by (simp add: strictKeys_def)
next
  case (Cons kv kvs)
  obtain k' v' where kv: "kv = (k', v')" by (cases kv)
  from Cons.prems have tl: "strictKeys kvs" and hd: "\<forall>x \<in> fst ` set kvs. k' < x"
    by (auto simp: strictKeys_def kv)
  show ?case
  proof (cases "k = k' \<or> k < k'")
    case True
    with Cons.prems show ?thesis by (auto simp: strictKeys_def kv)
  next
    case False
    then have "k' < k" by auto
    with hd have "\<forall>x \<in> fst ` set (mapStore k v kvs). k' < x"
      by (simp add: set_mapStore)
    with Cons.IH [OF tl] False show ?thesis
      by (simp add: strictKeys_def kv image_iff Ball_def)
  qed
qed

lemma wfMembers_mapStore: "wfJSON v \<Longrightarrow> wfMembers kvs \<Longrightarrow> wfMembers (mapStore k v kvs)"
  by (induction kvs) auto

lemma wfElems_snoc: "wfElems (acc @ [v]) = (wfElems acc \<and> wfJSON v)"
  by (induction acc) auto

lemma intOfDigits_nonneg: "list_all isDigit ds \<Longrightarrow> 0 \<le> intOfDigits ds"
proof (induction ds rule: rev_induct)
  case Nil
  show ?case by (simp add: intOfDigits_def)
next
  case (snoc c ds)
  then have "0 \<le> digitVal c"
    by (simp add: isDigit_def digitVal_def less_eq_char_def int_of_char)
  with snoc show ?case by (simp add: intOfDigits_snoc)
qed

lemma parseNat_bounds: "parseNat s = Some (n, r) \<Longrightarrow> 0 \<le> n \<and> n < 9007199254740992"
proof -
  assume a: "parseNat s = Some (n, r)"
  have "list_all isDigit (takeWhile isDigit s)"
    by (simp add: list_all_iff) (meson set_takeWhileD)
  from intOfDigits_nonneg [OF this] a show ?thesis
    by (auto simp: parseNat_def Let_def split: if_splits)
qed

lemma parseNumber_wf: "parseNumber s = Some (v, r) \<Longrightarrow> wfJSON v"
  by (auto simp: parseNumber_def split: list.splits if_splits option.splits dest!: parseNat_bounds)

lemma parse_wf:
  "parseValue n s = Some (v, r) \<Longrightarrow> wfJSON v"
  "parseElems n acc s = Some (v, r) \<Longrightarrow> wfElems acc \<Longrightarrow> wfJSON v"
  "parseMembers n macc s = Some (v, r) \<Longrightarrow> strictKeys macc \<Longrightarrow> wfMembers macc \<Longrightarrow> wfJSON v"
proof (induction n s and n acc s and n macc s arbitrary: v r and v r and v r
       rule: parseValue_parseElems_parseMembers.induct)
  case (1 s)
  then show ?case by simp
next
  case (2 n s)
  obtain c r0 where s: "skipSpace s = c # r0"
    using 2(3) by (cases "skipSpace s") auto
  show ?case
  proof (cases "c = CHR ''{''")
    case True
    obtain d r' where d: "skipSpace r0 = d # r'"
      using 2(3) s True by (cases "skipSpace r0") auto
    show ?thesis
    proof (cases "d = CHR ''}''")
      case True
      with 2(3) s d \<open>c = CHR ''{''\<close> show ?thesis by (auto simp: strictKeys_def)
    next
      case False
      with 2(3) s d True have "parseMembers n [] r0 = Some (v, r)" by simp
      from 2(1) [OF s True d False this] show ?thesis by (simp add: strictKeys_def)
    qed
  next
    case notobj: False
    show ?thesis
    proof (cases "c = CHR ''[''")
      case True
      obtain d r' where d: "skipSpace r0 = d # r'"
        using 2(3) s True by (cases "skipSpace r0") auto
      show ?thesis
      proof (cases "d = CHR '']''")
        case True
        with 2(3) s d \<open>c = CHR ''[''\<close> show ?thesis by auto
      next
        case False
        with 2(3) s d True have "parseElems n [] r0 = Some (v, r)" by simp
        from 2(2) [OF s notobj True d False this] show ?thesis by simp
      qed
    next
      case False
      with 2(3) s notobj show ?thesis
        by (auto split: if_splits option.splits dest: parseNumber_wf)
    qed
  qed
next
  case (3 acc s)
  then show ?case by simp
next
  case (4 n acc s)
  obtain w r1 where w: "parseValue n s = Some (w, r1)"
    using 4(3) by (cases "parseValue n s") auto
  then have wf: "wfJSON w" by (rule 4(1))
  obtain c r' where c: "skipSpace r1 = c # r'"
    using 4(3) w by (cases "skipSpace r1") auto
  show ?case
  proof (cases "c = CHR '',''")
    case True
    with 4(3) w c have "parseElems n (acc @ [w]) r' = Some (v, r)" by simp
    from 4(2) [OF w refl c True this] wf 4(4) show ?thesis by (simp add: wfElems_snoc)
  next
    case False
    with 4(3) w c wf 4(4) show ?thesis
      by (auto simp: wfElems_snoc split: if_splits)
  qed
next
  case (5 macc s)
  then show ?case by simp
next
  case (6 n macc s)
  obtain q r0 where q: "skipSpace s = q # r0"
    using 6(3) by (cases "skipSpace s") auto
  have qq: "\<not> q \<noteq> CHR 0x22"
    using 6(3) q by (auto split: if_splits)
  obtain k r1 where k: "unquoteBody r0 = Some (k, r1)"
    using 6(3) q qq by (cases "unquoteBody r0") auto
  obtain c r2 where c: "skipSpace r1 = c # r2"
    using 6(3) q qq k by (cases "skipSpace r1") auto
  have cc: "\<not> c \<noteq> CHR '':''"
    using 6(3) q qq k c by (auto split: if_splits)
  obtain w r3 where w: "parseValue n r2 = Some (w, r3)"
    using 6(3) q qq k c cc by (cases "parseValue n r2") auto
  have wf: "wfJSON w"
    using 6(1) [OF q qq k refl c cc w] .
  obtain d r4 where d: "skipSpace r3 = d # r4"
    using 6(3) q qq k c cc w by (cases "skipSpace r3") auto
  have acc': "strictKeys (mapStore k w macc)" "wfMembers (mapStore k w macc)"
    using 6(4,5) wf by (simp_all add: strictKeys_mapStore wfMembers_mapStore)
  show ?case
  proof (cases "d = CHR '',''")
    case True
    with 6(3) q qq k c cc w d have "parseMembers n (mapStore k w macc) r4 = Some (v, r)"
      by simp
    from 6(2) [OF q qq k refl c cc w refl d True this acc'] show ?thesis .
  next
    case False
    with 6(3) q qq k c cc w d acc' show ?thesis
      by (auto split: if_splits)
  qed
qed


lemma wf_supported:
  "wfJSON v \<Longrightarrow> supported v"
  "wfElems vs \<Longrightarrow> supportedElems vs"
  "wfMembers kvs \<Longrightarrow> supportedMembers kvs"
  by (induction v and vs and kvs rule: wfJSON_wfElems_wfMembers.induct) simp_all

lemma jsonMarshal_wf: "wfJSON v \<Longrightarrow> jsonMarshal v = Inr (printJSON v)"
  by (simp add: jsonMarshal_def wf_supported)

lemma jsonUnmarshal_wf:
  assumes "jsonUnmarshal s = Some v"
  shows "wfJSON v"
proof -
  from assms obtain r where "parseValue (2 * length s + 1) s = Some (v, r)"
    by (auto simp: jsonUnmarshal_def simp del: parseValue.simps split: option.splits if_splits)
  then show ?thesis by (rule parse_wf(1))
qed

subsection \<open>The bound of the reader\<close>

lemma consTo_rest: "consTo pre x = Some (t, r) \<Longrightarrow> \<exists>t'. x = Some (t', r)"
  by (auto simp: consTo_def split: option.splits)

lemma unquoteBody_shorter: "unquoteBody s = Some (t, r) \<Longrightarrow> length r < length s"
proof (induction "length s" arbitrary: s t rule: less_induct)
  case less
  from less.prems obtain c s0 where s: "s = c # s0"
    by (cases s) (auto simp: unquoteBody.simps)
  have H: "length u < Suc (length s0) \<longrightarrow> length r < length u"
    if "unquoteBody u = Some (t', r)" for u t'
    using less.hyps [of u t'] that s by simp
  from less.prems show ?case
    unfolding s
    apply (subst (asm) unquoteBody.simps)
    apply (auto split: if_splits list.splits option.splits dest!: consTo_rest)
    apply (auto dest!: H)
    done
qed


lemma skipSpace_length: "length (skipSpace s) \<le> length s"
  by (simp add: skipSpace_def length_dropWhile_le)

lemma skipSpace_Cons_length: "skipSpace s = c # r \<Longrightarrow> length r < length s"
  using skipSpace_length [of s] by simp

lemma parseNat_shorter: "parseNat s = Some (n, r) \<Longrightarrow> length r < length s"
proof -
  assume a: "parseNat s = Some (n, r)"
  then have "takeWhile isDigit s \<noteq> []" "r = dropWhile isDigit s"
    by (auto simp: parseNat_def Let_def split: if_splits)
  moreover have "length (takeWhile isDigit s) + length (dropWhile isDigit s) = length s"
    by (metis length_append takeWhile_dropWhile_id)
  ultimately show ?thesis by (cases "takeWhile isDigit s") auto
qed

lemma parseNumber_shorter: "parseNumber s = Some (v, r) \<Longrightarrow> length r < length s"
  by (auto simp: parseNumber_def split: list.splits if_splits option.splits
           dest!: parseNat_shorter)

lemma parse_shorter:
  "parseValue n s = Some (v, r) \<Longrightarrow> length r < length s"
  "parseElems n acc s = Some (v, r) \<Longrightarrow> length r < length s"
  "parseMembers n macc s = Some (v, r) \<Longrightarrow> length r < length s"
proof (induction n s and n acc s and n macc s arbitrary: v r and v r and v r
       rule: parseValue_parseElems_parseMembers.induct)
  case (1 s)
  then show ?case by simp
next
  case (2 n s)
  obtain c r0 where s: "skipSpace s = c # r0"
    using 2(3) by (cases "skipSpace s") auto
  note l0 = skipSpace_Cons_length [OF s]
  show ?case
  proof (cases "c = CHR ''{''")
    case True
    obtain d r' where d: "skipSpace r0 = d # r'"
      using 2(3) s True by (cases "skipSpace r0") auto
    note l1 = skipSpace_Cons_length [OF d]
    show ?thesis
    proof (cases "d = CHR ''}''")
      case True
      with 2(3) s d \<open>c = CHR ''{''\<close> l0 l1 show ?thesis by auto
    next
      case False
      with 2(3) s d True have "parseMembers n [] r0 = Some (v, r)" by simp
      from 2(1) [OF s True d False this] l0 show ?thesis by simp
    qed
  next
    case notobj: False
    show ?thesis
    proof (cases "c = CHR ''[''")
      case True
      obtain d r' where d: "skipSpace r0 = d # r'"
        using 2(3) s True by (cases "skipSpace r0") auto
      note l1 = skipSpace_Cons_length [OF d]
      show ?thesis
      proof (cases "d = CHR '']''")
        case True
        with 2(3) s d \<open>c = CHR ''[''\<close> l0 l1 show ?thesis by auto
      next
        case False
        with 2(3) s d True have "parseElems n [] r0 = Some (v, r)" by simp
        from 2(2) [OF s notobj True d False this] l0 show ?thesis by simp
      qed
    next
      case False
      have "length (c # r0) \<le> length s" using l0 by simp
      with 2(3) s notobj False show ?thesis
        by (auto split: if_splits option.splits
                 dest!: parseNumber_shorter unquoteBody_shorter)
    qed
  qed
next
  case (3 acc s)
  then show ?case by simp
next
  case (4 n acc s)
  obtain w r1 where w: "parseValue n s = Some (w, r1)"
    using 4(3) by (cases "parseValue n s") auto
  then have l1: "length r1 < length s" by (rule 4(1))
  obtain c r' where c: "skipSpace r1 = c # r'"
    using 4(3) w by (cases "skipSpace r1") auto
  note l2 = skipSpace_Cons_length [OF c]
  show ?case
  proof (cases "c = CHR '',''")
    case True
    with 4(3) w c have "parseElems n (acc @ [w]) r' = Some (v, r)" by simp
    from 4(2) [OF w refl c True this] l1 l2 show ?thesis by simp
  next
    case False
    with 4(3) w c l1 l2 show ?thesis
      by (auto split: if_splits)
  qed
next
  case (5 macc s)
  then show ?case by simp
next
  case (6 n macc s)
  obtain q r0 where q: "skipSpace s = q # r0"
    using 6(3) by (cases "skipSpace s") auto
  have qq: "\<not> q \<noteq> CHR 0x22"
    using 6(3) q by (auto split: if_splits)
  obtain k r1 where k: "unquoteBody r0 = Some (k, r1)"
    using 6(3) q qq by (cases "unquoteBody r0") auto
  obtain c r2 where c: "skipSpace r1 = c # r2"
    using 6(3) q qq k by (cases "skipSpace r1") auto
  have cc: "\<not> c \<noteq> CHR '':''"
    using 6(3) q qq k c by (auto split: if_splits)
  obtain w r3 where w: "parseValue n r2 = Some (w, r3)"
    using 6(3) q qq k c cc by (cases "parseValue n r2") auto
  obtain d r4 where d: "skipSpace r3 = d # r4"
    using 6(3) q qq k c cc w by (cases "skipSpace r3") auto
  have len: "length r4 < length s"
    using skipSpace_Cons_length [OF q] unquoteBody_shorter [OF k] skipSpace_Cons_length [OF c]
      6(1) [OF q qq k refl c cc w] skipSpace_Cons_length [OF d]
    by simp
  show ?case
  proof (cases "d = CHR '',''")
    case True
    with 6(3) q qq k c cc w d have "parseMembers n (mapStore k w macc) r4 = Some (v, r)"
      by simp
    from 6(2) [OF q qq k refl c cc w refl d True this] len show ?thesis by simp
  next
    case False
    with 6(3) q qq k c cc w d len show ?thesis
      by (auto split: if_splits)
  qed
qed


lemma fuel_enough:
  "2 * length s + 1 \<le> n \<Longrightarrow> n \<le> m \<Longrightarrow> parseValue m s = parseValue n s"
  "2 * length s + 2 \<le> n \<Longrightarrow> n \<le> m \<Longrightarrow> parseElems m acc s = parseElems n acc s"
  "2 * length s + 2 \<le> n \<Longrightarrow> n \<le> m \<Longrightarrow> parseMembers m macc s = parseMembers n macc s"
proof (induction n s and n acc s and n macc s arbitrary: m and m and m
       rule: parseValue_parseElems_parseMembers.induct)
  case (1 s)
  then show ?case by simp
next
  case (2 n s)
  from 2(4) obtain m' where m: "m = Suc m'" "n \<le> m'" by (cases m) auto
  show ?case
  proof (cases "skipSpace s")
    case Nil
    then show ?thesis by (simp add: m)
  next
    case (Cons c r0)
    note l0 = skipSpace_Cons_length [OF Cons]
    show ?thesis
    proof (cases "skipSpace r0")
      case Nil
      with Cons show ?thesis by (simp add: m)
    next
      case d: (Cons d r')
      have fuel: "2 * length r0 + 2 \<le> n" using l0 2(3) by simp
      have "parseMembers m' [] r0 = parseMembers n [] r0" if "c = CHR ''{''" "d \<noteq> CHR ''}''"
        using 2(1) [OF Cons that(1) d that(2) fuel m(2)] .
      moreover have "parseElems m' [] r0 = parseElems n [] r0"
        if "c \<noteq> CHR ''{''" "c = CHR ''[''" "d \<noteq> CHR '']''"
        using 2(2) [OF Cons that(1,2) d that(3) fuel m(2)] .
      ultimately show ?thesis using Cons d by (simp add: m)
    qed
  qed
next
  case (3 acc s)
  then show ?case by simp
next
  case (4 n acc s)
  from 4(4) obtain m' where m: "m = Suc m'" "n \<le> m'" by (cases m) auto
  have v: "parseValue m' s = parseValue n s"
    using 4(3) m(2) by (intro 4(1)) simp_all
  show ?case
  proof (cases "parseValue n s")
    case None
    with v show ?thesis by (simp add: m)
  next
    case (Some a)
    obtain w r1 where a: "a = (w, r1)" by (cases a)
    with Some have w: "parseValue n s = Some (w, r1)" by simp
    note l1 = parse_shorter(1) [OF w]
    show ?thesis
    proof (cases "skipSpace r1")
      case Nil
      with v w show ?thesis by (simp add: m)
    next
      case (Cons c r')
      note l2 = skipSpace_Cons_length [OF Cons]
      have fuel: "2 * length r' + 2 \<le> n" using l1 l2 4(3) by simp
      have "parseElems m' (acc @ [w]) r' = parseElems n (acc @ [w]) r'" if "c = CHR '',''"
        using 4(2) [OF w refl Cons that fuel m(2)] .
      then show ?thesis using v w Cons by (simp add: m)
    qed
  qed
next
  case (5 macc s)
  then show ?case by simp
next
  case (6 n macc s)
  from 6(4) obtain m' where m: "m = Suc m'" "n \<le> m'" by (cases m) auto
  show ?case
  proof (cases "skipSpace s")
    case Nil
    then show ?thesis by (simp add: m)
  next
    case q: (Cons q r0)
    show ?thesis
    proof (cases "q \<noteq> CHR 0x22")
      case True
      with q show ?thesis by (simp add: m)
    next
      case qq: False
      show ?thesis
      proof (cases "unquoteBody r0")
        case None
        with q qq show ?thesis by (simp add: m)
      next
        case (Some a)
        obtain k r1 where "a = (k, r1)" by (cases a)
        with Some have k: "unquoteBody r0 = Some (k, r1)" by simp
        show ?thesis
        proof (cases "skipSpace r1")
          case Nil
          with q qq k show ?thesis by (simp add: m)
        next
          case c: (Cons c r2)
          show ?thesis
          proof (cases "c \<noteq> CHR '':''")
            case True
            with q qq k c show ?thesis by (simp add: m)
          next
            case cc: False
            have l2: "length r2 + 3 \<le> length s"
              using skipSpace_Cons_length [OF q] unquoteBody_shorter [OF k]
                skipSpace_Cons_length [OF c] by simp
            have v: "parseValue m' r2 = parseValue n r2"
              using 6(3) m(2) l2 by (intro 6(1) [OF q qq k refl c cc]) simp_all
            show ?thesis
            proof (cases "parseValue n r2")
              case None
              with q qq k c cc v show ?thesis by (simp add: m)
            next
              case (Some b)
              obtain w r3 where "b = (w, r3)" by (cases b)
              with Some have w: "parseValue n r2 = Some (w, r3)" by simp
              note l3 = parse_shorter(1) [OF w]
              show ?thesis
              proof (cases "skipSpace r3")
                case Nil
                with q qq k c cc v w show ?thesis by (simp add: m)
              next
                case d: (Cons d r4)
                note l4 = skipSpace_Cons_length [OF d]
                have fuel: "2 * length r4 + 2 \<le> n" using l2 l3 l4 6(3) by simp
                have "parseMembers m' (mapStore k w macc) r4 = parseMembers n (mapStore k w macc) r4"
                  if "d = CHR '',''"
                  using 6(2) [OF q qq k refl c cc w refl d that fuel m(2)] .
                then show ?thesis using q qq k c cc v w d by (simp add: m)
              qed
            qed
          qed
        qed
      qed
    qed
  qed
qed

text \<open>The bound of \<open>jsonUnmarshal\<close> is never reached: a larger one gives the same result.\<close>

lemma jsonUnmarshal_fuel:
  "2 * length s + 1 \<le> n \<Longrightarrow>
   jsonUnmarshal s =
     (case parseValue n s of
        None \<Rightarrow> None
      | Some (v, r) \<Rightarrow> if skipSpace r = [] then Some v else None)"
  using fuel_enough(1) [of s "2 * length s + 1" n]
  by (simp add: jsonUnmarshal_def del: parseValue.simps)

subsection \<open>Restoring the name\<close>

lemma unmarshalMap_Inr: "unmarshalMap s = Inr obj \<Longrightarrow> wfJSON obj \<and> isMap obj"
  by (auto simp: unmarshalMap_def isMap_def split: option.splits json.splits dest: jsonUnmarshal_wf)

lemma unmarshalMap_printJSON: "wfJSON obj \<Longrightarrow> isMap obj \<Longrightarrow> unmarshalMap (printJSON obj) = Inr obj"
  by (cases obj) (simp_all add: unmarshalMap_def isMap_def jsonUnmarshal_printJSON del: printJSON.simps)

lemma map_of_mapStore: "map_of (mapStore k v kvs) = (map_of kvs)(k \<mapsto> v)"
  by (induction k v kvs rule: mapStore.induct) auto

lemma extractMetadataName_GetName:
  "unmarshalMap t = Inr obj \<Longrightarrow> extractMetadataName t = GetName obj"
  by (auto simp: extractMetadataName_def GetName_def nestedString_def index_def mapIndex_def
           split: option.splits json.splits)

lemma isMap_setMetadataName: "isMap (setMetadataName obj n) = isMap obj"
  by (auto simp: setMetadataName_def isMap_def split: json.splits option.splits)

lemma wfMembers_map_of: "wfMembers kvs \<Longrightarrow> map_of kvs k = Some v \<Longrightarrow> wfJSON v"
  by (induction kvs) (auto split: if_splits)

lemma wfJSON_setMetadataName:
  assumes "wfJSON obj"
  shows "wfJSON (setMetadataName obj n)"
proof (cases "\<exists>kvs m. obj = JObject kvs \<and> map_of kvs ''metadata'' = Some (JObject m)")
  case True
  then obtain kvs m where o: "obj = JObject kvs" "map_of kvs ''metadata'' = Some (JObject m)"
    by blast
  with assms have kvs: "strictKeys kvs" "wfMembers kvs" by simp_all
  with o(2) have "wfJSON (JObject m)" by (auto dest: wfMembers_map_of)
  then have "wfJSON (JObject (mapStore ''name'' (JString n) m))"
    by (simp add: strictKeys_mapStore wfMembers_mapStore)
  then have "wfMembers (mapStore ''metadata'' (JObject (mapStore ''name'' (JString n) m)) kvs)"
    using kvs(2) by (rule wfMembers_mapStore)
  with kvs(1) o show ?thesis
    by (simp add: setMetadataName_def mapIndex_def strictKeys_mapStore)
next
  case False
  with assms show ?thesis
    by (auto simp: setMetadataName_def mapIndex_def split: json.splits option.splits)
qed

lemma index_setMetadataName:
  "index (setMetadataName obj n) k =
     (if k = ''metadata'' then
        (case index obj ''metadata'' of
           Some (JObject m) \<Rightarrow> Some (JObject (mapStore ''name'' (JString n) m))
         | other \<Rightarrow> other)
      else index obj k)"
  by (auto simp: setMetadataName_def index_def mapIndex_def map_of_mapStore
           split: json.splits option.splits)

lemma kind_setMetadataName:
  "GroupVersionKind_Kind (setMetadataName obj n) = GroupVersionKind_Kind obj"
  by (simp add: GroupVersionKind_Kind_def GetKind_def GetAPIVersion_def nestedString_def
        index_setMetadataName)

lemma GetKind_setMetadataName: "GetKind (setMetadataName obj n) = GetKind obj"
  by (simp add: GetKind_def nestedString_def index_setMetadataName)

lemma GetName_alt:
  "GetName obj =
     (case index obj ''metadata'' of
        None \<Rightarrow> []
      | Some w \<Rightarrow> (case index w ''name'' of Some (JString s) \<Rightarrow> s | _ \<Rightarrow> []))"
  by (simp add: GetName_def nestedString_def split: option.splits)

lemma GetName_setMetadataName:
  "GetName (setMetadataName obj n) =
     (case index obj ''metadata'' of Some (JObject m) \<Rightarrow> n | _ \<Rightarrow> GetName obj)"
proof (cases "\<exists>m. index obj ''metadata'' = Some (JObject m)")
  case True
  then obtain m where m: "index obj ''metadata'' = Some (JObject m)" by blast
  have "index (JObject (mapStore ''name'' (JString n) m)) ''name'' = Some (JString n)"
    by (simp add: index_def mapIndex_def map_of_mapStore)
  with m show ?thesis
    by (simp add: GetName_alt [of "setMetadataName obj n"] index_setMetadataName)
next
  case False
  then have "index (setMetadataName obj n) ''metadata'' = index obj ''metadata''"
    by (auto simp: index_setMetadataName split: option.splits json.splits)
  with False show ?thesis
    by (auto simp: GetName_alt split: option.splits json.splits)
qed

lemma GetName_no_metadata:
  "\<not> (\<exists>m. index obj ''metadata'' = Some (JObject m)) \<Longrightarrow> GetName obj = []"
  by (cases "index obj ''metadata''")
     (auto simp: GetName_alt index_def split: option.splits json.splits)

text \<open>The text of a Pod after restoration decodes to the substituted document with the name
  written back.\<close>

lemma unmarshal_restoreMetadataName:
  "unmarshalUnstructured (restoreMetadataName s n) =
     (case unmarshalUnstructured s of
        Inl e \<Rightarrow> Inl e
      | Inr obj \<Rightarrow> Inr (setMetadataName obj n))"
proof (cases "unmarshalMap s")
  case (Inl e)
  then show ?thesis by (simp add: restoreMetadataName_def unmarshalUnstructured_def)
next
  case (Inr obj)
  then have wf: "wfJSON obj" "isMap obj" using unmarshalMap_Inr by auto
  then have wf': "wfJSON (setMetadataName obj n)" "isMap (setMetadataName obj n)"
    by (simp_all add: wfJSON_setMetadataName isMap_setMetadataName)
  have "restoreMetadataName s n = printJSON (setMetadataName obj n)"
    using Inr wf'(1) by (simp add: restoreMetadataName_def jsonMarshal_wf)
  then have "unmarshalMap (restoreMetadataName s n) = Inr (setMetadataName obj n)"
    using wf' by (simp add: unmarshalMap_printJSON)
  with Inr show ?thesis
    by (simp add: unmarshalUnstructured_def kind_setMetadataName)
qed


lemma replacePatternAction_text:
  "replacePatternAction visit input patterns =
     (case jsonMarshal (Item input) of
        Inl err \<Rightarrow> Inl err
      | Inr jsonData \<Rightarrow>
          (case unmarshalUnstructured (modifiedText visit (Item input) patterns jsonData) of
             Inl err \<Rightarrow> Inl err
           | Inr obj \<Rightarrow> Inr (NewRestoreItemActionExecuteOutput obj)))"
  by (simp add: replacePatternAction_def modifiedText_def Let_def split: sum.splits)

lemma unmarshalUnstructured_isMap: "unmarshalUnstructured s = Inr obj \<Longrightarrow> wfJSON obj \<and> isMap obj"
  by (auto simp: unmarshalUnstructured_def split: sum.splits if_splits dest: unmarshalMap_Inr)

lemma Pod_isMap: "GroupVersionKind_Kind item = ''Pod'' \<Longrightarrow> isMap item"
  by (cases item)
     (auto simp: GroupVersionKind_Kind_def GetKind_def nestedString_def index_def isMap_def
           split: if_splits)

lemma extract_printJSON:
  "wfJSON item \<Longrightarrow> isMap item \<Longrightarrow> extractMetadataName (printJSON item) = GetName item"
  by (simp add: extractMetadataName_GetName unmarshalMap_printJSON)

text \<open>What the substitution stage returns for a Pod.\<close>

lemma replacePatternAction_Pod:
  assumes "GroupVersionKind_Kind (Item input) = ''Pod''"
      and "jsonMarshal (Item input) = Inr jsonData"
  shows "replacePatternAction visit input patterns =
           (case unmarshalUnstructured (applyPatterns (visit patterns) jsonData) of
              Inl e \<Rightarrow> Inl e
            | Inr obj \<Rightarrow>
                Inr \<lparr>UpdatedItem = setMetadataName obj (extractMetadataName jsonData)\<rparr>)"
  using assms
  by (simp add: replacePatternAction_text modifiedText_def unmarshal_restoreMetadataName
        NewRestoreItemActionExecuteOutput_def split: sum.splits)


section \<open>The substitution stage\<close>

text \<open>
  C1 (as stated, refuted). A rule that rewrites the key \<^verbatim>\<open>metadata\<close> leaves the substituted
  document without a metadata mapping; \<open>restoreMetadataName\<close> then has nothing to write the
  name into, \<open>replacePatternAction\<close> returns without error, and the returned Pod has no name
  while the input Pod is named \<^verbatim>\<open>web-7\<close>.
\<close>

theorem C1_metadata_key_rewritten_counterexample:
  "GroupVersionKind_Kind (podOf ''web-7'' []) = ''Pod''
   \<and> replacePatternAction id \<lparr>Item = podOf ''web-7'' []\<rparr> [(''metadata'', ''meta'')]
     = Inr \<lparr>UpdatedItem =
              JObject [(''apiVersion'', JString ''v1''), (''kind'', JString ''Pod''),
                       (''meta'', JObject [(''labels'', JObject []), (''name'', JString ''web-7'')])]\<rparr>
   \<and> GetName (JObject [(''apiVersion'', JString ''v1''), (''kind'', JString ''Pod''),
                        (''meta'', JObject [(''labels'', JObject []), (''name'', JString ''web-7'')])])
       = []
   \<and> GetName (podOf ''web-7'' []) = ''web-7''"
  by code_simp

text \<open>
  C1 (amended). For every Pod that is a document of the fragment, every rule set and every
  visiting order: when \<open>replacePatternAction\<close> returns without error and the returned item
  has a metadata mapping, the name of the returned item is the name of the input item,
  whatever the rules are (in particular when a pattern or a replacement equals the name);
  when the returned item has no metadata mapping, it has no name.
\<close>

theorem C1_name_preserved:
  assumes "GroupVersionKind_Kind (Item input) = ''Pod''"
      and "wfJSON (Item input)"
      and "replacePatternAction visit input patterns = Inr output"
  shows "GetName (UpdatedItem output) =
           (case index (UpdatedItem output) ''metadata'' of
              Some (JObject m) \<Rightarrow> GetName (Item input)
            | _ \<Rightarrow> [])"
proof -
  let ?t = "printJSON (Item input)"
  have m: "jsonMarshal (Item input) = Inr ?t" using assms(2) by (rule jsonMarshal_wf)
  have n: "extractMetadataName ?t = GetName (Item input)"
    using assms(1,2) by (simp add: extract_printJSON Pod_isMap)
  from replacePatternAction_Pod [OF assms(1) m, of visit patterns] assms(3) n
  obtain obj where out: "UpdatedItem output = setMetadataName obj (GetName (Item input))"
    by (auto split: sum.splits)
  show ?thesis
  proof (cases "\<exists>m. index obj ''metadata'' = Some (JObject m)")
    case True
    then show ?thesis
      unfolding out by (auto simp: GetName_setMetadataName index_setMetadataName)
  next
    case False
    then have "\<not> (\<exists>m. index (setMetadataName obj (GetName (Item input))) ''metadata'' = Some (JObject m))"
      by (auto simp: index_setMetadataName split: option.splits json.splits)
    then show ?thesis
      unfolding out
      by (auto simp: GetName_no_metadata split: option.splits json.splits)
  qed
qed

text \<open>The witness: the Pod \<^verbatim>\<open>web-7\<close> with the label \<^verbatim>\<open>app=web-7-demo\<close> under the rule
  that rewrites \<^verbatim>\<open>web-7\<close> to \<^verbatim>\<open>db-7\<close>; the label value changes, the name stays.\<close>

theorem C1_name_preserved_witness:
  "replacePatternAction id \<lparr>Item = podOf ''web-7'' [(''app'', JString ''web-7-demo'')]\<rparr>
      [(''web-7'', ''db-7'')]
     = Inr \<lparr>UpdatedItem = podOf ''web-7'' [(''app'', JString ''db-7-demo'')]\<rparr>
   \<and> GetName (podOf ''web-7'' [(''app'', JString ''db-7-demo'')]) = ''web-7''"
proof -
  let ?input = "\<lparr>Item = podOf ''web-7'' [(''app'', JString ''web-7-demo'')]\<rparr>"
  let ?output = "\<lparr>UpdatedItem = podOf ''web-7'' [(''app'', JString ''db-7-demo'')]\<rparr>"
  have 1: "GroupVersionKind_Kind (Item ?input) = ''Pod''" by code_simp
  have 2: "wfJSON (Item ?input)" by code_simp
  have 3: "replacePatternAction id ?input [(''web-7'', ''db-7'')] = Inr ?output" by code_simp
  have 4: "(case index (UpdatedItem ?output) ''metadata'' of
              Some (JObject m) \<Rightarrow> GetName (Item ?input)
            | _ \<Rightarrow> []) = ''web-7''" by code_simp
  have "GetName (UpdatedItem ?output) = ''web-7''"
    using C1_name_preserved [OF 1 2 3] 4 by (rule trans)
  with 3 show ?thesis by simp
qed




lemma applyPatterns_perm:
  assumes "mset xs = mset ys"
      and "\<And>p1 r1 p2 r2 s. (p1, r1) \<in> set xs \<Longrightarrow> (p2, r2) \<in> set xs \<Longrightarrow>
             ReplaceAll (ReplaceAll s p1 r1) p2 r2 = ReplaceAll (ReplaceAll s p2 r2) p1 r1"
  shows "applyPatterns xs s = applyPatterns ys s"
proof -
  let ?f = "\<lambda>(pattern, replacement) modifiedString. ReplaceAll modifiedString pattern replacement"
  have "?f x \<circ> ?f y = ?f y \<circ> ?f x" if "x \<in> set xs" "y \<in> set xs" for x y
  proof -
    obtain p1 r1 p2 r2 where xy: "x = (p1, r1)" "y = (p2, r2)" by (cases x; cases y) auto
    show ?thesis using assms(2) [of p2 r2 p1 r1] that by (auto simp: xy fun_eq_iff)
  qed
  then have "fold ?f xs = fold ?f ys" using assms(1) by (rule fold_multiset_equiv)
  then show ?thesis by (simp add: applyPatterns_def)
qed

text \<open>
  C4 (as stated, refuted). The rule set \<^verbatim>\<open>{green: blue, red: green}\<close> on a document that
  contains \<^verbatim>\<open>red\<close>: a run that visits \<^verbatim>\<open>green\<close> first returns \<^verbatim>\<open>green\<close>, a run that
  visits \<^verbatim>\<open>red\<close> first returns \<^verbatim>\<open>blue\<close>.
\<close>

theorem C4_order_dependent_counterexample:
  "replacePatternAction id \<lparr>Item = configMapOf ''palette'' [(''colour'', JString ''red'')]\<rparr>
      [(''green'', ''blue''), (''red'', ''green'')]
     = Inr \<lparr>UpdatedItem = configMapOf ''palette'' [(''colour'', JString ''green'')]\<rparr>
   \<and> replacePatternAction rev \<lparr>Item = configMapOf ''palette'' [(''colour'', JString ''red'')]\<rparr>
      [(''green'', ''blue''), (''red'', ''green'')]
     = Inr \<lparr>UpdatedItem = configMapOf ''palette'' [(''colour'', JString ''blue'')]\<rparr>
   \<and> configMapOf ''palette'' [(''colour'', JString ''green'')]
       \<noteq> configMapOf ''palette'' [(''colour'', JString ''blue'')]"
  by code_simp

text \<open>
  C4 (amended). The result of \<open>replacePatternAction\<close> is determined by the resource, the rule
  set and the order in which the rules are visited. When every two rules commute as text
  replacements, two runs that visit the same rules in different orders return the same
  result.
\<close>

theorem C4_order_independent_when_rules_commute:
  assumes "mset (visit1 patterns) = mset (visit2 patterns)"
      and "\<forall>(p1, r1) \<in> set (visit1 patterns). \<forall>(p2, r2) \<in> set (visit1 patterns). \<forall>s.
             ReplaceAll (ReplaceAll s p1 r1) p2 r2 = ReplaceAll (ReplaceAll s p2 r2) p1 r1"
  shows "replacePatternAction visit1 input patterns = replacePatternAction visit2 input patterns"
proof -
  have "applyPatterns (visit1 patterns) s = applyPatterns (visit2 patterns) s" for s
    using assms(1) by (rule applyPatterns_perm) (use assms(2) in fastforce)
  then have "modifiedText visit1 item patterns s = modifiedText visit2 item patterns s" for item s
    by (simp add: modifiedText_def)
  then show ?thesis
    by (simp only: replacePatternAction_text)
qed

lemma replaceNonEmpty_single:
  "replaceNonEmpty s [p] [r] = map (\<lambda>c. if c = p then r else c) s"
  by (induction s) (simp_all add: hasPrefix_def)

lemma ReplaceAll_single: "ReplaceAll s [p] [r] = map (\<lambda>c. if c = p then r else c) s"
  by (simp add: ReplaceAll_def replaceNonEmpty_single map_idI)

text \<open>The witness: two rules that each rewrite one character.\<close>

theorem C4_order_independent_when_rules_commute_witness:
  "replacePatternAction id \<lparr>Item = configMapOf ''palette'' [(''colour'', JString ''red'')]\<rparr>
      [(''a'', ''x''), (''b'', ''y'')]
   = replacePatternAction rev \<lparr>Item = configMapOf ''palette'' [(''colour'', JString ''red'')]\<rparr>
      [(''a'', ''x''), (''b'', ''y'')]"
proof -
  have 1: "mset (id [(''a'', ''x''), (''b'', ''y'')]) = mset (rev [(''a'', ''x''), (''b'', ''y'')])"
    by simp
  have 2: "\<forall>(p1, r1) \<in> set (id [(''a'', ''x''), (''b'', ''y'')]).
           \<forall>(p2, r2) \<in> set (id [(''a'', ''x''), (''b'', ''y'')]). \<forall>s.
             ReplaceAll (ReplaceAll s p1 r1) p2 r2 = ReplaceAll (ReplaceAll s p2 r2) p1 r1"
    by (simp add: ReplaceAll_single)
  from C4_order_independent_when_rules_commute
         [of id "[(''a'', ''x''), (''b'', ''y'')]" rev, OF 1 2]
  show ?thesis .
qed

lemma replaceNonEmpty_leftmost:
  assumes "old \<noteq> []" and "\<forall>i<length a. \<not> hasPrefix (drop i (a @ old @ b)) old"
  shows "replaceNonEmpty (a @ old @ b) old new = a @ new @ replaceNonEmpty b old new"
  using assms(2)
proof (induction a)
  case Nil
  obtain c s where cs: "old = c # s" using assms(1) by (cases old) auto
  have "hasPrefix (old @ b) old" by (simp add: hasPrefix_def)
  then show ?case using assms(1) by (simp add: cs)
next
  case (Cons x a)
  from Cons.prems have "\<not> hasPrefix ((x # a) @ old @ b) old" by force
  moreover from Cons.prems have "\<forall>i<length a. \<not> hasPrefix (drop i (a @ old @ b)) old"
    by force
  ultimately show ?case using Cons.IH by simp
qed

lemma Contains_iff: "Contains s p = (\<exists>i\<le>length s. hasPrefix (drop i s) p)"
  by (simp add: Contains_def list_ex_iff Bex_def less_Suc_eq_le del: upt_Suc)

lemma Contains_Cons:
  "\<not> Contains (c # s) p \<Longrightarrow> \<not> hasPrefix (c # s) p \<and> \<not> Contains s p"
  unfolding Contains_iff
proof (intro conjI notI)
  assume a: "\<not> (\<exists>i\<le>length (c # s). hasPrefix (drop i (c # s)) p)"
  { assume "hasPrefix (c # s) p"
    then have "hasPrefix (drop 0 (c # s)) p" by simp
    with a show False by blast }
  { assume "\<exists>i\<le>length s. hasPrefix (drop i s) p"
    then obtain i where "i \<le> length s" "hasPrefix (drop i s) p" by blast
    then have "Suc i \<le> length (c # s)" "hasPrefix (drop (Suc i) (c # s)) p" by simp_all
    with a show False by blast }
qed

lemma replaceNonEmpty_absent:
  "\<not> Contains s old \<Longrightarrow> replaceNonEmpty s old new = s"
proof (induction s)
  case Nil
  then show ?case by simp
next
  case (Cons c s)
  from Contains_Cons [OF Cons.prems] Cons.IH show ?case by simp
qed

lemma applyPatterns_Nil: "applyPatterns [] s = s"
  by (simp add: applyPatterns_def)

lemma applyPatterns_Cons:
  "applyPatterns ((old, new) # rules) s = applyPatterns rules (ReplaceAll s old new)"
  by (simp add: applyPatterns_def)

text \<open>
  C5 (as stated, refuted). A pattern that occurs in the serialized resource is not always
  replaced by its replacement. The ConfigMap is named \<^verbatim>\<open>abc\<close>; the patterns \<^verbatim>\<open>ab\<close> and
  \<^verbatim>\<open>bc\<close> both occur in its serialized form. A run that visits \<^verbatim>\<open>ab\<close> first returns the
  name \<^verbatim>\<open>xc\<close>: the occurrence of \<^verbatim>\<open>bc\<close> is gone before its rule is applied, and its
  replacement \<^verbatim>\<open>y\<close> is nowhere in the result. A run that visits \<^verbatim>\<open>bc\<close> first returns
  \<^verbatim>\<open>ay\<close>, without the replacement of \<^verbatim>\<open>ab\<close>.
\<close>

theorem C5_occurring_pattern_not_replaced_counterexample:
  "GroupVersionKind_Kind (configMapOf ''abc'' []) \<noteq> ''Pod''
   \<and> Contains (printJSON (configMapOf ''abc'' [])) ''ab''
   \<and> Contains (printJSON (configMapOf ''abc'' [])) ''bc''
   \<and> replacePatternAction id \<lparr>Item = configMapOf ''abc'' []\<rparr> [(''ab'', ''x''), (''bc'', ''y'')]
       = Inr \<lparr>UpdatedItem = configMapOf ''xc'' []\<rparr>
   \<and> \<not> Contains (printJSON (configMapOf ''xc'' [])) ''y''
   \<and> replacePatternAction rev \<lparr>Item = configMapOf ''abc'' []\<rparr> [(''ab'', ''x''), (''bc'', ''y'')]
       = Inr \<lparr>UpdatedItem = configMapOf ''ay'' []\<rparr>
   \<and> \<not> Contains (printJSON (configMapOf ''ay'' [])) ''x''"
  by code_simp

text \<open>
  C5 (amended). For every resource that is not a Pod, no field is exempt: the returned item
  is the deserialization of the text after the rules have been applied, with nothing written
  back (so \<^verbatim>\<open>metadata.name\<close> is substituted like any other field). The rules are applied
  one after the other in the order of the visit, every one of them, each to the text that the
  rules before it have left. Applying a rule whose pattern is not empty leaves a text without
  an occurrence of the pattern as it is, and otherwise replaces the leftmost occurrence and
  goes on in the text after that occurrence; so every occurrence that does not overlap an
  earlier one is replaced.
\<close>

theorem C5_rules_applied_in_turn:
  assumes "GroupVersionKind_Kind (Item input) \<noteq> ''Pod''"
  shows "replacePatternAction visit input patterns =
           (case jsonMarshal (Item input) of
              Inl err \<Rightarrow> Inl err
            | Inr jsonData \<Rightarrow>
                (case unmarshalUnstructured (applyPatterns (visit patterns) jsonData) of
                   Inl err \<Rightarrow> Inl err
                 | Inr obj \<Rightarrow> Inr \<lparr>UpdatedItem = obj\<rparr>))
         \<and> (\<forall>s. applyPatterns [] s = s)
         \<and> (\<forall>old new rules s.
               applyPatterns ((old, new) # rules) s = applyPatterns rules (ReplaceAll s old new))
         \<and> (\<forall>old new s. old \<noteq> [] \<and> \<not> Contains s old \<longrightarrow> ReplaceAll s old new = s)
         \<and> (\<forall>old new a b.
               old \<noteq> [] \<and> (\<forall>i<length a. \<not> hasPrefix (drop i (a @ old @ b)) old)
               \<longrightarrow> ReplaceAll (a @ old @ b) old new = a @ new @ ReplaceAll b old new)"
proof -
  have 1: "replacePatternAction visit input patterns =
           (case jsonMarshal (Item input) of
              Inl err \<Rightarrow> Inl err
            | Inr jsonData \<Rightarrow>
                (case unmarshalUnstructured (applyPatterns (visit patterns) jsonData) of
                   Inl err \<Rightarrow> Inl err
                 | Inr obj \<Rightarrow> Inr \<lparr>UpdatedItem = obj\<rparr>))"
    using assms
    by (simp add: replacePatternAction_text modifiedText_def NewRestoreItemActionExecuteOutput_def
          split: sum.splits)
  have 3: "ReplaceAll s old new = s" if "old \<noteq> []" "\<not> Contains s old" for old new s
    using that by (simp add: ReplaceAll_def replaceNonEmpty_absent)
  have 4: "ReplaceAll (a @ old @ b) old new = a @ new @ ReplaceAll b old new"
    if "old \<noteq> []" "\<forall>i<length a. \<not> hasPrefix (drop i (a @ old @ b)) old" for old new a b
    using that replaceNonEmpty_leftmost [OF that, of new]
    by (simp add: ReplaceAll_def)
  from 1 3 4 show ?thesis
    by (simp add: applyPatterns_Nil applyPatterns_Cons)
qed

text \<open>The witness: a ConfigMap resource named \<^verbatim>\<open>staging-bucket\<close> under two rules, the
  first of which does not match: the second is applied all the same, to the name and to the
  data. And the two rules on a short text, step by step.\<close>

theorem C5_rules_applied_in_turn_witness:
  "replacePatternAction id
      \<lparr>Item = configMapOf ''staging-bucket'' [(''bucket'', JString ''a-staging-bucket'')]\<rparr>
      [(''prod'', ''test''), (''staging'', ''prod'')]
   = Inr \<lparr>UpdatedItem = configMapOf ''prod-bucket'' [(''bucket'', JString ''a-prod-bucket'')]\<rparr>
   \<and> applyPatterns [(''prod'', ''test''), (''staging'', ''prod'')] ''a-staging-bucket''
     = ''a-prod-bucket''"
proof -
  let ?input = "\<lparr>Item = configMapOf ''staging-bucket'' [(''bucket'', JString ''a-staging-bucket'')]\<rparr>"
  let ?rules = "[(''prod'', ''test''), (''staging'', ''prod'')]"
  have 1: "GroupVersionKind_Kind (Item ?input) \<noteq> ''Pod''" by code_simp
  have 2: "(case jsonMarshal (Item ?input) of
              Inl err \<Rightarrow> Inl err
            | Inr jsonData \<Rightarrow>
                (case unmarshalUnstructured (applyPatterns (id ?rules) jsonData) of
                   Inl err \<Rightarrow> Inl err
                 | Inr obj \<Rightarrow> Inr \<lparr>UpdatedItem = obj\<rparr>))
           = Inr \<lparr>UpdatedItem = configMapOf ''prod-bucket'' [(''bucket'', JString ''a-prod-bucket'')]\<rparr>"
    by code_simp
  note inst = C5_rules_applied_in_turn [OF 1, of id ?rules]
  from inst [THEN conjunct1] 2
  have a: "replacePatternAction id ?input ?rules
     = Inr \<lparr>UpdatedItem = configMapOf ''prod-bucket'' [(''bucket'', JString ''a-prod-bucket'')]\<rparr>"
    by (rule trans)
  note nil = inst [THEN conjunct2, THEN conjunct1, rule_format]
  note step = inst [THEN conjunct2, THEN conjunct2, THEN conjunct1, rule_format]
  note miss = inst [THEN conjunct2, THEN conjunct2, THEN conjunct2, THEN conjunct1, rule_format]
  note hit = inst [THEN conjunct2, THEN conjunct2, THEN conjunct2, THEN conjunct2, rule_format]
  have 3: "''prod'' \<noteq> [] \<and> \<not> Contains ''a-staging-bucket'' ''prod''" by code_simp
  have 4: "''staging'' \<noteq> []
           \<and> (\<forall>i<length ''a-''. \<not> hasPrefix (drop i (''a-'' @ ''staging'' @ ''-bucket'')) ''staging'')"
    by (simp add: hasPrefix_def less_Suc_eq numeral_2_eq_2)
  have 5: "''staging'' \<noteq> [] \<and> \<not> Contains ''-bucket'' ''staging''" by code_simp
  have "applyPatterns ?rules ''a-staging-bucket''
          = applyPatterns [(''staging'', ''prod'')] (ReplaceAll ''a-staging-bucket'' ''prod'' ''test'')"
    by (rule step)
  also have "ReplaceAll ''a-staging-bucket'' ''prod'' ''test'' = ''a-staging-bucket''"
    using 3 by (rule miss)
  also have "applyPatterns [(''staging'', ''prod'')] ''a-staging-bucket''
          = applyPatterns [] (ReplaceAll ''a-staging-bucket'' ''staging'' ''prod'')"
    by (rule step)
  also have "ReplaceAll ''a-staging-bucket'' ''staging'' ''prod''
          = ''a-'' @ ''prod'' @ ReplaceAll ''-bucket'' ''staging'' ''prod''"
    using hit [OF 4, of "''prod''"] by simp
  also have "ReplaceAll ''-bucket'' ''staging'' ''prod'' = ''-bucket''"
    using 5 by (rule miss)
  also have "applyPatterns [] (''a-'' @ ''prod'' @ ''-bucket'') = ''a-'' @ ''prod'' @ ''-bucket''"
    by (rule nil)
  finally have b: "applyPatterns ?rules ''a-staging-bucket'' = ''a-prod-bucket''" by simp
  from a b show ?thesis by (rule conjI)
qed




section \<open>The hook entry point\<close>

lemma updateMatching_error:
  "updateMatching c n items st = (Some e, st') \<Longrightarrow> e = UpdatePodVolumeRestoreError"
  by (induction c n items st rule: updateMatching.induct) (auto split: if_splits sum.splits)




text \<open>
  C8. When the rules were fetched and the substitution stage has produced the mutated item,
  \<open>Execute\<close> returns that item and no error whatever the status advancer does. For a mutated
  item of kind Pod: with nil labels the advancer ends with its error, which is logged, and the
  store is as it was; so it is when the restore-name or the restore-uid label is missing or
  empty, and when the list call fails. Every other failure of the advancer (that of an update
  call) is logged as well, and the store is the one the advancer left.
\<close>

theorem C8_Execute_swallows_advancer_failure:
  assumes "getConfigMapDataByLabel p [(''agoracalyce.io/replace-pattern'', ''RestoreItemAction'')]
             = Inr patterns"
      and "replacePatternAction visit input patterns = Inr output"
  shows "fst (Execute p visit input store) = Inr output
         \<and> (GetKind (UpdatedItem output) = ''Pod'' \<and> GetLabels (UpdatedItem output) = None
              \<longrightarrow> Execute p visit input store = (Inr output, store, [PodLabelsNil]))
         \<and> (\<forall>labels. GetKind (UpdatedItem output) = ''Pod''
               \<and> GetLabels (UpdatedItem output) = Some labels
               \<and> (labelValue labels ''velero.io/restore-name'' = []
                  \<or> labelValue labels ''velero.io/restore-uid'' = [])
               \<longrightarrow> Execute p visit input store = (Inr output, store, [MissingRestoreLabels]))
         \<and> (\<forall>labels. GetKind (UpdatedItem output) = ''Pod''
               \<and> GetLabels (UpdatedItem output) = Some labels
               \<and> labelValue labels ''velero.io/restore-name'' \<noteq> []
               \<and> labelValue labels ''velero.io/restore-uid'' \<noteq> []
               \<and> pvrListFails (veleroClient p)
               \<longrightarrow> Execute p visit input store = (Inr output, store, [ListPodVolumeRestoresError]))
         \<and> (\<forall>err store'. triggerPodVolumeRestore p (UpdatedItem output) store = (Some err, store')
               \<longrightarrow> Execute p visit input store = (Inr output, store', [err]))"
proof -
  have 1: "fst (Execute p visit input store) = Inr output"
    using assms by (simp add: Execute_def split: prod.splits option.splits)
  have 2: "Execute p visit input store = (Inr output, store, [PodLabelsNil])"
    if "GetKind (UpdatedItem output) = ''Pod''" "GetLabels (UpdatedItem output) = None"
    using assms that by (simp add: Execute_def triggerPodVolumeRestore_def)
  have 3: "Execute p visit input store = (Inr output, store, [MissingRestoreLabels])"
    if "GetKind (UpdatedItem output) = ''Pod''" "GetLabels (UpdatedItem output) = Some labels"
       "labelValue labels ''velero.io/restore-name'' = []
          \<or> labelValue labels ''velero.io/restore-uid'' = []" for labels
    using assms that by (auto simp: Execute_def triggerPodVolumeRestore_def Let_def)
  have 4: "Execute p visit input store = (Inr output, store, [ListPodVolumeRestoresError])"
    if "GetKind (UpdatedItem output) = ''Pod''" "GetLabels (UpdatedItem output) = Some labels"
       "labelValue labels ''velero.io/restore-name'' \<noteq> []"
       "labelValue labels ''velero.io/restore-uid'' \<noteq> []" "pvrListFails (veleroClient p)"
    for labels
    using assms that
    by (simp add: Execute_def triggerPodVolumeRestore_def PodVolumeRestores_List_def Let_def)
  have 5: "Execute p visit input store = (Inr output, store', [err])"
    if "triggerPodVolumeRestore p (UpdatedItem output) store = (Some err, store')" for err store'
    using assms that by (simp add: Execute_def)
  from 1 2 3 4 5 show ?thesis by blast
qed

text \<open>The witness: a Pod whose labels lack \<^verbatim>\<open>velero.io/restore-uid\<close>, under the rule that
  rewrites \<^verbatim>\<open>web-7\<close> to \<^verbatim>\<open>db-7\<close>: the mutated Pod is returned, the record is not
  touched.\<close>

theorem C8_Execute_swallows_advancer_failure_witness:
  "Execute (pluginWith [rulesConfigMap [(''web-7'', ''db-7'')]]) id
      \<lparr>Item = podOf ''web-7'' [(''app'', JString ''web-7-demo''),
                                (''velero.io/restore-name'', JString ''r1'')]\<rparr>
      [pvrOf ''pvr-1'' ''web-7'' PhaseNew]
   = (Inr \<lparr>UpdatedItem = podOf ''web-7'' [(''app'', JString ''db-7-demo''),
                                          (''velero.io/restore-name'', JString ''r1'')]\<rparr>,
      [pvrOf ''pvr-1'' ''web-7'' PhaseNew], [MissingRestoreLabels])"
proof -
  let ?p = "pluginWith [rulesConfigMap [(''web-7'', ''db-7'')]]"
  let ?input = "\<lparr>Item = podOf ''web-7'' [(''app'', JString ''web-7-demo''),
                                          (''velero.io/restore-name'', JString ''r1'')]\<rparr>"
  let ?output = "\<lparr>UpdatedItem = podOf ''web-7'' [(''app'', JString ''db-7-demo''),
                                                 (''velero.io/restore-name'', JString ''r1'')]\<rparr>"
  let ?store = "[pvrOf ''pvr-1'' ''web-7'' PhaseNew]"
  have a: "getConfigMapDataByLabel ?p [(''agoracalyce.io/replace-pattern'', ''RestoreItemAction'')]
             = Inr [(''web-7'', ''db-7'')]"
    by code_simp
  have b: "replacePatternAction id ?input [(''web-7'', ''db-7'')] = Inr ?output"
    by code_simp
  have c: "GetKind (UpdatedItem ?output) = ''Pod''
           \<and> GetLabels (UpdatedItem ?output)
               = Some [(''app'', ''db-7-demo''), (''velero.io/restore-name'', ''r1'')]
           \<and> (labelValue [(''app'', ''db-7-demo''), (''velero.io/restore-name'', ''r1'')]
                 ''velero.io/restore-name'' = []
              \<or> labelValue [(''app'', ''db-7-demo''), (''velero.io/restore-name'', ''r1'')]
                 ''velero.io/restore-uid'' = [])"
    by code_simp
  from C8_Execute_swallows_advancer_failure
         [OF a b, of ?store, THEN conjunct2, THEN conjunct2, THEN conjunct1, rule_format, OF c]
  show ?thesis .
qed

text \<open>
  C9. \<open>Execute\<close> returns an error exactly when the rules were fetched and either the input item
  cannot be serialized or the text after substitution (and, for a Pod, name restoration) cannot
  be deserialized; the error is that failure. With an error there is no output, the store is
  as it was and nothing is logged.
\<close>

theorem C9_Execute_error_iff:
  "(fst (Execute p visit input store) = Inl e \<longleftrightarrow>
      (\<exists>patterns. getConfigMapDataByLabel p
                     [(''agoracalyce.io/replace-pattern'', ''RestoreItemAction'')] = Inr patterns
         \<and> (jsonMarshal (Item input) = Inl e
            \<or> (\<exists>jsonData. jsonMarshal (Item input) = Inr jsonData
                 \<and> unmarshalUnstructured (modifiedText visit (Item input) patterns jsonData)
                     = Inl e))))
   \<and> (fst (Execute p visit input store) = Inl e \<longrightarrow> Execute p visit input store = (Inl e, store, []))"
  by (auto simp: Execute_def replacePatternAction_text split: sum.splits option.splits prod.splits)

text \<open>The witness: the rule rewrites the key \<^verbatim>\<open>kind\<close>, so the substituted text is an object
  without a kind, which the decoder refuses.\<close>

theorem C9_Execute_error_iff_witness:
  "Execute (pluginWith [rulesConfigMap [(''kind'', ''sort'')]]) id \<lparr>Item = podOf ''web-7'' []\<rparr>
      [pvrOf ''pvr-1'' ''web-7'' PhaseNew]
   = (Inl MissingKindError, [pvrOf ''pvr-1'' ''web-7'' PhaseNew], [])"
proof -
  have "fst (Execute (pluginWith [rulesConfigMap [(''kind'', ''sort'')]]) id
               \<lparr>Item = podOf ''web-7'' []\<rparr> [pvrOf ''pvr-1'' ''web-7'' PhaseNew])
          = Inl MissingKindError"
    by code_simp
  with C9_Execute_error_iff [of "pluginWith [rulesConfigMap [(''kind'', ''sort'')]]" id
         "\<lparr>Item = podOf ''web-7'' []\<rparr>" "[pvrOf ''pvr-1'' ''web-7'' PhaseNew]" MissingKindError]
  show ?thesis by blast
qed

section \<open>The status advancer\<close>

lemma updateMatching_closed:
  assumes "\<forall>r. \<not> pvrUpdateFails c r" and "pvrName ` set items \<subseteq> pvrName ` set store"
  shows "updateMatching c name items store =
          (None, map (\<lambda>r. if pvrName r \<in> pvrName ` {x \<in> set items. specPodName x = name}
                          then r\<lparr>statusPhase := PhaseInProgress\<rparr> else r) store)"
  using assms
proof (induction items arbitrary: store)
  case Nil
  then show ?case by (simp add: map_idI)
next
  case (Cons pvr items)
  show ?case
  proof (cases "specPodName pvr = name")
    case False
    with Cons show ?thesis by (auto intro!: map_cong)
  next
    case True
    let ?g = "\<lambda>r. if pvrName r = pvrName pvr then r\<lparr>statusPhase := PhaseInProgress\<rparr> else r"
    have up: "PodVolumeRestores_UpdateStatus c (pvr\<lparr>statusPhase := PhaseInProgress\<rparr>) store
                = Inr (map ?g store)"
      using Cons.prems by (auto simp: PodVolumeRestores_UpdateStatus_def)
    have names: "pvrName ` set items \<subseteq> pvrName ` set (map ?g store)"
    proof -
      have "map pvrName (map ?g store) = map pvrName store"
        by (simp add: comp_def if_distrib cong: if_cong)
      then have "pvrName ` set (map ?g store) = pvrName ` set store"
        by (metis set_map)
      with Cons.prems(2) show ?thesis by auto
    qed
    have "updateMatching c name (pvr # items) store = updateMatching c name items (map ?g store)"
      using True up by simp
    also have "\<dots> = (None, map (\<lambda>r. if pvrName r \<in> pvrName ` {x \<in> set items. specPodName x = name}
                          then r\<lparr>statusPhase := PhaseInProgress\<rparr> else r) (map ?g store))"
      using Cons.IH [OF Cons.prems(1) names] .
    also have "\<dots> = (None, map (\<lambda>r. if pvrName r \<in> pvrName ` {x \<in> set (pvr # items). specPodName x = name}
                          then r\<lparr>statusPhase := PhaseInProgress\<rparr> else r) store)"
      using True by (auto intro!: map_cong)
    finally show ?thesis .
  qed
qed

text \<open>When no call fails, one run of the advancer is a map over the store: the records that
  carry both correlation labels and refer to the Pod by name get the phase, the others stay.\<close>

lemma triggerPodVolumeRestore_closed:
  assumes "GetKind item = ''Pod''"
      and "GetLabels item = Some labels"
      and "labelValue labels ''velero.io/restore-name'' \<noteq> []"
      and "labelValue labels ''velero.io/restore-uid'' \<noteq> []"
      and "\<not> pvrListFails (veleroClient p)"
      and "\<forall>r. \<not> pvrUpdateFails (veleroClient p) r"
      and "distinct (map pvrName store)"
  shows "triggerPodVolumeRestore p item store =
           (None,
            map (\<lambda>r. if matchesSelector
                          [(''velero.io/restore-name'', labelValue labels ''velero.io/restore-name''),
                           (''velero.io/restore-uid'', labelValue labels ''velero.io/restore-uid'')]
                          (pvrLabels r)
                        \<and> specPodName r = GetName item
                      then r\<lparr>statusPhase := PhaseInProgress\<rparr> else r) store)"
proof -
  let ?sel = "[(''velero.io/restore-name'', labelValue labels ''velero.io/restore-name''),
               (''velero.io/restore-uid'', labelValue labels ''velero.io/restore-uid'')]"
  let ?items = "filter (\<lambda>pvr. matchesSelector ?sel (pvrLabels pvr)) store"
  have "triggerPodVolumeRestore p item store
          = updateMatching (veleroClient p) (GetName item) ?items store"
    using assms(1-5) by (simp add: triggerPodVolumeRestore_def PodVolumeRestores_List_def Let_def)
  also have "\<dots> = (None, map (\<lambda>r. if pvrName r \<in> pvrName ` {x \<in> set ?items. specPodName x = GetName item}
                          then r\<lparr>statusPhase := PhaseInProgress\<rparr> else r) store)"
    by (rule updateMatching_closed [OF assms(6)]) auto
  also have "\<dots> = (None, map (\<lambda>r. if matchesSelector ?sel (pvrLabels r) \<and> specPodName r = GetName item
                          then r\<lparr>statusPhase := PhaseInProgress\<rparr> else r) store)"
  proof -
    have "(pvrName r \<in> pvrName ` {x \<in> set ?items. specPodName x = GetName item})
          = (matchesSelector ?sel (pvrLabels r) \<and> specPodName r = GetName item)"
      if "r \<in> set store" for r
      using that assms(7) by (auto simp: distinct_map inj_on_def)
    then show ?thesis by (auto intro!: map_cong)
  qed
  finally show ?thesis .
qed

text \<open>
  C6. For a Pod that carries both correlation labels, when the list call and the update calls
  succeed (and the records of the store have distinct names, as objects of one namespace do):
  \<open>triggerPodVolumeRestore\<close> returns no error and sets the phase \<open>PhaseInProgress\<close> on exactly
  the records that carry the Pod's two correlation labels and whose \<open>specPodName\<close> is the
  Pod's name; every other record is left as it was.
\<close>

theorem C6_triggerPodVolumeRestore_exactly_matching:
  assumes "GetKind item = ''Pod''"
      and "GetLabels item = Some labels"
      and "labelValue labels ''velero.io/restore-name'' \<noteq> []"
      and "labelValue labels ''velero.io/restore-uid'' \<noteq> []"
      and "\<not> pvrListFails (veleroClient p)"
      and "\<forall>r. \<not> pvrUpdateFails (veleroClient p) r"
      and "distinct (map pvrName store)"
  shows "triggerPodVolumeRestore p item store =
           (None,
            map (\<lambda>r. if matchesSelector
                          [(''velero.io/restore-name'', labelValue labels ''velero.io/restore-name''),
                           (''velero.io/restore-uid'', labelValue labels ''velero.io/restore-uid'')]
                          (pvrLabels r)
                        \<and> specPodName r = GetName item
                      then r\<lparr>statusPhase := PhaseInProgress\<rparr> else r) store)"
  using assms by (rule triggerPodVolumeRestore_closed)

text \<open>The witness: two records share the correlation labels of the Pod \<^verbatim>\<open>web-7\<close>; one
  refers to \<^verbatim>\<open>web-7\<close>, the other to \<^verbatim>\<open>web-8\<close>.\<close>

theorem C6_triggerPodVolumeRestore_exactly_matching_witness:
  "triggerPodVolumeRestore (pluginWith []) (podOf ''web-7'' restoreLabelsJSON)
      [pvrOf ''pvr-1'' ''web-7'' PhaseNew, pvrOf ''pvr-2'' ''web-8'' PhaseNew]
   = (None, [pvrOf ''pvr-1'' ''web-7'' PhaseInProgress, pvrOf ''pvr-2'' ''web-8'' PhaseNew])"
proof -
  let ?item = "podOf ''web-7'' restoreLabelsJSON"
  let ?store = "[pvrOf ''pvr-1'' ''web-7'' PhaseNew, pvrOf ''pvr-2'' ''web-8'' PhaseNew]"
  have 1: "GetKind ?item = ''Pod''" by code_simp
  have 2: "GetLabels ?item = Some restoreLabels" by code_simp
  have 3: "labelValue restoreLabels ''velero.io/restore-name'' \<noteq> []" by code_simp
  have 4: "labelValue restoreLabels ''velero.io/restore-uid'' \<noteq> []" by code_simp
  have 5: "\<not> pvrListFails (veleroClient (pluginWith []))" by (simp add: pluginWith_def)
  have 6: "\<forall>r. \<not> pvrUpdateFails (veleroClient (pluginWith [])) r" by (simp add: pluginWith_def)
  have 7: "distinct (map pvrName ?store)" by (simp add: pvrOf_def)
  have n: "GetName ?item = ''web-7''" by code_simp
  show ?thesis
    unfolding C6_triggerPodVolumeRestore_exactly_matching [OF 1 2 3 4 5 6 7] n
    by (simp add: pvrOf_def restoreLabels_def matchesSelector_def labelValue_def)
qed

text \<open>
  C7. Under the same conditions, the advancer applied twice in succession returns no error
  either time, the second run leaves the store of the first run as it is, and after each run
  every record that matches the Pod is in phase \<open>PhaseInProgress\<close>, whatever its phase was
  before (the phase of a record is never read).
\<close>

theorem C7_triggerPodVolumeRestore_idempotent:
  assumes "GetKind item = ''Pod''"
      and "GetLabels item = Some labels"
      and "labelValue labels ''velero.io/restore-name'' \<noteq> []"
      and "labelValue labels ''velero.io/restore-uid'' \<noteq> []"
      and "\<not> pvrListFails (veleroClient p)"
      and "\<forall>r. \<not> pvrUpdateFails (veleroClient p) r"
      and "distinct (map pvrName store)"
      and "triggerPodVolumeRestore p item store = (e1, store1)"
      and "triggerPodVolumeRestore p item store1 = (e2, store2)"
  shows "e1 = None \<and> e2 = None \<and> store2 = store1
         \<and> map pvrName store1 = map pvrName store
         \<and> (\<forall>r \<in> set store1.
               matchesSelector
                 [(''velero.io/restore-name'', labelValue labels ''velero.io/restore-name''),
                  (''velero.io/restore-uid'', labelValue labels ''velero.io/restore-uid'')]
                 (pvrLabels r)
               \<and> specPodName r = GetName item
               \<longrightarrow> statusPhase r = PhaseInProgress)"
proof -
  let ?sel = "[(''velero.io/restore-name'', labelValue labels ''velero.io/restore-name''),
               (''velero.io/restore-uid'', labelValue labels ''velero.io/restore-uid'')]"
  let ?f = "\<lambda>r. if matchesSelector ?sel (pvrLabels r) \<and> specPodName r = GetName item
                 then r\<lparr>statusPhase := PhaseInProgress\<rparr> else r"
  have first: "e1 = None" "store1 = map ?f store"
    using triggerPodVolumeRestore_closed [OF assms(1-7)] assms(8) by simp_all
  have names: "map pvrName store1 = map pvrName store"
    unfolding first(2) by (simp add: comp_def if_distrib cong: if_cong)
  then have d1: "distinct (map pvrName store1)"
    using assms(7) by simp
  have second: "e2 = None" "store2 = map ?f store1"
    using triggerPodVolumeRestore_closed [OF assms(1-6) d1] assms(9) by simp_all
  have "map ?f store1 = store1"
    unfolding first(2) by (auto intro!: map_cong)
  with second have "store2 = store1" by simp
  moreover have "\<forall>r \<in> set store1. matchesSelector ?sel (pvrLabels r) \<and> specPodName r = GetName item
                   \<longrightarrow> statusPhase r = PhaseInProgress"
    unfolding first(2) by auto
  ultimately show ?thesis using first(1) second(1) names by simp
qed

text \<open>The witness: the matching record is already in phase \<open>PhaseCompleted\<close>.\<close>

theorem C7_triggerPodVolumeRestore_idempotent_witness:
  "triggerPodVolumeRestore (pluginWith []) (podOf ''web-7'' restoreLabelsJSON)
      [pvrOf ''pvr-1'' ''web-7'' PhaseCompleted, pvrOf ''pvr-2'' ''web-8'' PhaseNew]
     = (None, [pvrOf ''pvr-1'' ''web-7'' PhaseInProgress, pvrOf ''pvr-2'' ''web-8'' PhaseNew])
   \<and> triggerPodVolumeRestore (pluginWith []) (podOf ''web-7'' restoreLabelsJSON)
      [pvrOf ''pvr-1'' ''web-7'' PhaseInProgress, pvrOf ''pvr-2'' ''web-8'' PhaseNew]
     = (None, [pvrOf ''pvr-1'' ''web-7'' PhaseInProgress, pvrOf ''pvr-2'' ''web-8'' PhaseNew])"
proof -
  let ?item = "podOf ''web-7'' restoreLabelsJSON"
  let ?store = "[pvrOf ''pvr-1'' ''web-7'' PhaseCompleted, pvrOf ''pvr-2'' ''web-8'' PhaseNew]"
  let ?store1 = "[pvrOf ''pvr-1'' ''web-7'' PhaseInProgress, pvrOf ''pvr-2'' ''web-8'' PhaseNew]"
  have 1: "GetKind ?item = ''Pod''" by code_simp
  have 2: "GetLabels ?item = Some restoreLabels" by code_simp
  have 3: "labelValue restoreLabels ''velero.io/restore-name'' \<noteq> []" by code_simp
  have 4: "labelValue restoreLabels ''velero.io/restore-uid'' \<noteq> []" by code_simp
  have 5: "\<not> pvrListFails (veleroClient (pluginWith []))" by (simp add: pluginWith_def)
  have 6: "\<forall>r. \<not> pvrUpdateFails (veleroClient (pluginWith [])) r" by (simp add: pluginWith_def)
  have 7: "distinct (map pvrName ?store)" by (simp add: pvrOf_def)
  have 8: "triggerPodVolumeRestore (pluginWith []) ?item ?store = (None, ?store1)" by code_simp
  obtain e2 store2 where 9: "triggerPodVolumeRestore (pluginWith []) ?item ?store1 = (e2, store2)"
    by (cases "triggerPodVolumeRestore (pluginWith []) ?item ?store1")
  from C7_triggerPodVolumeRestore_idempotent [OF 1 2 3 4 5 6 7 8 9]
  have "e2 = None" "store2 = ?store1" by simp_all
  with 8 9 show ?thesis by simp
qed

end
